theory Spec2Isabelle
  imports Complex_Main "HOL-Library.AList"
begin

section \<open>Configuration documents and Python values\<close>

text \<open>
  \<^verbatim>\<open>GANDLF/parseConfig.py\<close> reads a YAML file into a Python dictionary \<open>params\<close>, checks and
  completes it in place and returns it. The embedding starts from the parsed document.

  A YAML value is a scalar (null, boolean, integer, float, string), a sequence or a
  mapping. Mappings have string keys and keep their insertion order, as Python
  dictionaries do, so they are association lists; \<open>AList.update\<close> overwrites a key where
  it stands and appends a new key at the end, which is what \<^verbatim>\<open>d[k] = v\<close> does. A document
  is a tree: no two places share one object (no YAML anchors), so a store through one
  path is not seen through another.

  Floating-point numbers are not interpreted: they are the values of a type parameter
  \<open>'f\<close>, and everything Python computes with them is a field of the \<open>platform\<close> record
  below. Strings are lists of 8-bit characters (code points below 256).
\<close>

datatype 'f yaml =
    YNone
  | YBool bool
  | YInt int
  | YFloat 'f
  | YStr string
  | YList "'f yaml list"
  | YDict "(string \<times> 'f yaml) list"

type_synonym 'f doc = "(string \<times> 'f yaml) list"

text \<open>The exceptions the function can end with, beside \<^verbatim>\<open>sys.exit\<close>.\<close>

datatype exn =
    KeyError | TypeError | ValueError | AttributeError | IndexError
  | OverflowError | UnboundLocalError

text \<open>
  A computation returns a value (\<open>Ok\<close>), leaves through \<^verbatim>\<open>sys.exit(message)\<close>
  (\<open>Fatal\<close>, the descriptive abort) or raises an exception nobody catches (\<open>Raise\<close>).
\<close>

datatype 'a outcome = Ok 'a | Fatal string | Raise exn

fun then_do :: "'a outcome \<Rightarrow> ('a \<Rightarrow> 'b outcome) \<Rightarrow> 'b outcome" where
  "then_do (Ok x) f = f x"
| "then_do (Fatal m) f = Fatal m"
| "then_do (Raise e) f = Raise e"

fun raised :: "exn + 'a \<Rightarrow> 'a outcome" where
  "raised (Inl e) = Raise e"
| "raised (Inr x) = Ok x"

text \<open>
  What the interpreter and numpy do with values this development does not interpret.
  A built-in can raise but never calls \<^verbatim>\<open>sys.exit\<close>, hence the sum type.
\<close>

record 'f platform =
  float_of_int :: "int \<Rightarrow> exn + 'f"
  float_of_str :: "string \<Rightarrow> exn + 'f"
  int_of_float :: "'f \<Rightarrow> exn + int"
  float_nonzero :: "'f \<Rightarrow> bool"
  str_of_nonstr :: "'f yaml \<Rightarrow> exn + string"
  int_max_str_digits :: nat
  ge_all_other :: "'f yaml \<Rightarrow> 'f yaml \<Rightarrow> exn + bool"
  default_learning_rate :: 'f
  float_info_min :: 'f
  float_info_max :: 'f

text \<open>
  The local variables of \<^verbatim>\<open>parseConfig\<close> that outlive a statement are \<open>params\<close> and the
  loop variable \<open>key\<close>, which is unbound until a \<^verbatim>\<open>for\<close> loop has run once.
\<close>

type_synonym 'f state = "'f doc \<times> 'f yaml option"

section \<open>Python built-ins\<close>

subsection \<open>Dictionaries, subscripts, membership, length\<close>

definition has_key :: "'f doc \<Rightarrow> string \<Rightarrow> bool" where
  \<comment> \<open>\<^verbatim>\<open>name in params\<close>\<close>
  "has_key d name = (map_of d name \<noteq> None)"

definition lookup :: "'f doc \<Rightarrow> string \<Rightarrow> 'f yaml outcome" where
  \<comment> \<open>\<^verbatim>\<open>params[name]\<close>\<close>
  "lookup d name = (case map_of d name of None \<Rightarrow> Raise KeyError | Some v \<Rightarrow> Ok v)"

definition index :: "'a list \<Rightarrow> int \<Rightarrow> nat option" where
  \<comment> \<open>the position a Python subscript \<open>i\<close> names in \<open>xs\<close>; \<open>-1\<close> is the last one\<close>
  "index xs i =
     (if 0 \<le> i \<and> i < int (length xs) then Some (nat i)
      else if i < 0 \<and> - int (length xs) \<le> i then Some (nat (int (length xs) + i))
      else None)"

fun int_of_key :: "'f yaml \<Rightarrow> int option" where
  "int_of_key (YInt i) = Some i"
| "int_of_key (YBool b) = Some (if b then 1 else 0)"
| "int_of_key _ = None"

fun getitem :: "'f yaml \<Rightarrow> 'f yaml \<Rightarrow> 'f yaml outcome" where
  \<comment> \<open>\<^verbatim>\<open>v[k]\<close>\<close>
  "getitem (YDict m) (YStr s) = lookup m s"
| "getitem (YDict m) (YList _) = Raise TypeError"
| "getitem (YDict m) (YDict _) = Raise TypeError"
| "getitem (YDict m) _ = Raise KeyError"
| "getitem (YList xs) k =
     (case int_of_key k of
        None \<Rightarrow> Raise TypeError
      | Some i \<Rightarrow> (case index xs i of None \<Rightarrow> Raise IndexError | Some j \<Rightarrow> Ok (xs ! j)))"
| "getitem (YStr s) k =
     (case int_of_key k of
        None \<Rightarrow> Raise TypeError
      | Some i \<Rightarrow> (case index s i of None \<Rightarrow> Raise IndexError | Some j \<Rightarrow> Ok (YStr [s ! j])))"
| "getitem _ _ = Raise TypeError"

fun setitem :: "'f yaml \<Rightarrow> 'f yaml \<Rightarrow> 'f yaml \<Rightarrow> 'f yaml outcome" where
  \<comment> \<open>\<^verbatim>\<open>v[k] = x\<close>, returning the changed container. A mapping of this data model has
      string keys only; the function stores under a key it has just read or compared
      with a string, so the store of any other key is never reached.\<close>
  "setitem (YDict m) (YStr s) x = Ok (YDict (AList.update s x m))"
| "setitem (YDict m) _ x = Raise TypeError"
| "setitem (YList xs) k x =
     (case int_of_key k of
        None \<Rightarrow> Raise TypeError
      | Some i \<Rightarrow> (case index xs i of None \<Rightarrow> Raise IndexError | Some j \<Rightarrow> Ok (YList (xs[j := x]))))"
| "setitem _ _ _ = Raise TypeError"

definition store2 :: "'f doc \<Rightarrow> string \<Rightarrow> 'f yaml \<Rightarrow> 'f yaml \<Rightarrow> 'f doc outcome" where
  \<comment> \<open>\<^verbatim>\<open>params[name][k] = x\<close>\<close>
  "store2 d name k x =
     then_do (lookup d name) (\<lambda>c.
     then_do (setitem c k x) (\<lambda>c'.
     Ok (AList.update name c' d)))"

definition store3 :: "'f doc \<Rightarrow> string \<Rightarrow> 'f yaml \<Rightarrow> string \<Rightarrow> 'f yaml \<Rightarrow> 'f doc outcome" where
  \<comment> \<open>\<^verbatim>\<open>params[name][k][sub] = x\<close>\<close>
  "store3 d name k sub x =
     then_do (lookup d name) (\<lambda>c.
     then_do (getitem c k) (\<lambda>e.
     then_do (setitem e (YStr sub) x) (\<lambda>e'.
     then_do (setitem c k e') (\<lambda>c'.
     Ok (AList.update name c' d)))))"

fun starts_with :: "string \<Rightarrow> string \<Rightarrow> bool" where
  "starts_with [] t = True"
| "starts_with (c # s) [] = False"
| "starts_with (c # s) (x # t) = (c = x \<and> starts_with s t)"

fun substring :: "string \<Rightarrow> string \<Rightarrow> bool" where
  \<comment> \<open>\<^verbatim>\<open>s in t\<close> for two strings\<close>
  "substring s [] = (s = [])"
| "substring s (x # t) = (starts_with s (x # t) \<or> substring s t)"

fun contains :: "string \<Rightarrow> 'f yaml \<Rightarrow> bool outcome" where
  \<comment> \<open>\<^verbatim>\<open>s in v\<close> for a string \<open>s\<close>: a key of a mapping, an element of a sequence,
      a substring of a string\<close>
  "contains s (YDict m) = Ok (has_key m s)"
| "contains s (YList xs) = Ok (YStr s \<in> set xs)"
| "contains s (YStr t) = Ok (substring s t)"
| "contains s _ = Raise TypeError"

fun py_len :: "'f yaml \<Rightarrow> nat outcome" where
  "py_len (YDict m) = Ok (length m)"
| "py_len (YList xs) = Ok (length xs)"
| "py_len (YStr s) = Ok (length s)"
| "py_len _ = Raise TypeError"

fun py_iter :: "'f yaml \<Rightarrow> 'f yaml list outcome" where
  \<comment> \<open>what \<^verbatim>\<open>for key in v\<close> runs through\<close>
  "py_iter (YDict m) = Ok (map (\<lambda>p. YStr (fst p)) m)"
| "py_iter (YList xs) = Ok xs"
| "py_iter (YStr s) = Ok (map (\<lambda>c. YStr [c]) s)"
| "py_iter _ = Raise TypeError"

fun is_dict :: "'f yaml \<Rightarrow> bool" where
  "is_dict (YDict m) = True"
| "is_dict _ = False"

subsection \<open>Truth values and conversions\<close>

fun truthy :: "'f platform \<Rightarrow> 'f yaml \<Rightarrow> bool" where
  "truthy P YNone = False"
| "truthy P (YBool b) = b"
| "truthy P (YInt i) = (i \<noteq> 0)"
| "truthy P (YFloat x) = float_nonzero P x"
| "truthy P (YStr s) = (s \<noteq> [])"
| "truthy P (YList xs) = (xs \<noteq> [])"
| "truthy P (YDict m) = (m \<noteq> [])"

definition is_digit :: "char \<Rightarrow> bool" where
  "is_digit c = (48 \<le> (of_char c :: nat) \<and> (of_char c :: nat) \<le> 57)"

definition is_space :: "char \<Rightarrow> bool" where
  \<comment> \<open>the white space \<^verbatim>\<open>int\<close> skips at both ends: tab to carriage return, space, and the
      two Latin-1 white-space characters\<close>
  "is_space c = (of_char c \<in> {9, 10, 11, 12, 13, 32, 133, 160 :: nat})"

definition strip :: "string \<Rightarrow> string" where
  "strip s = rev (dropWhile is_space (rev (dropWhile is_space s)))"

fun int_body :: "string \<Rightarrow> bool" where
  \<comment> \<open>decimal digits, single underscores allowed between two digits\<close>
  "int_body [] = False"
| "int_body [c] = is_digit c"
| "int_body (c # d # cs) =
     (is_digit c \<and> (if d = CHR ''_'' then int_body cs else int_body (d # cs)))"

definition digit_val :: "char \<Rightarrow> int" where
  "digit_val c = int (of_char c) - 48"

definition decimal :: "string \<Rightarrow> int" where
  "decimal s = foldl (\<lambda>a c. 10 * a + digit_val c) 0 s"

definition digits_allowed :: "nat \<Rightarrow> nat \<Rightarrow> bool" where
  \<comment> \<open>the limit on integer strings (\<^verbatim>\<open>sys.get_int_max_str_digits()\<close>, 4300 by default
      since Python 3.11, 0 for none, absent before): a literal of more than 640 digits
      is refused when it has more digits than the limit\<close>
  "digits_allowed limit n = (\<not> (640 < n \<and> 0 < limit \<and> limit < n))"

definition int_literal :: "nat \<Rightarrow> string \<Rightarrow> int option" where
  \<comment> \<open>\<^verbatim>\<open>int(s)\<close> for a string, base ten, under a limit on the digits\<close>
  "int_literal limit s =
     (let t = strip s;
          sign = (if t \<noteq> [] \<and> hd t = CHR ''-'' then - 1 else 1);
          body = (if t \<noteq> [] \<and> (hd t = CHR ''-'' \<or> hd t = CHR ''+'') then tl t else t);
          digits = filter (\<lambda>c. c \<noteq> CHR ''_'') body
      in if int_body body \<and> digits_allowed limit (length digits)
         then Some (sign * decimal digits)
         else None)"

definition int_of_string :: "'f platform \<Rightarrow> string \<Rightarrow> int option" where
  "int_of_string P s = int_literal (int_max_str_digits P) s"

fun py_int :: "'f platform \<Rightarrow> 'f yaml \<Rightarrow> int outcome" where
  "py_int P (YInt i) = Ok i"
| "py_int P (YBool b) = Ok (if b then 1 else 0)"
| "py_int P (YFloat x) = raised (int_of_float P x)"
| "py_int P (YStr s) = (case int_of_string P s of None \<Rightarrow> Raise ValueError | Some i \<Rightarrow> Ok i)"
| "py_int P _ = Raise TypeError"

fun py_float :: "'f platform \<Rightarrow> 'f yaml \<Rightarrow> 'f outcome" where
  "py_float P (YFloat x) = Ok x"
| "py_float P (YInt i) = raised (float_of_int P i)"
| "py_float P (YBool b) = raised (float_of_int P (if b then 1 else 0))"
| "py_float P (YStr s) = raised (float_of_str P s)"
| "py_float P _ = Raise TypeError"

fun py_str :: "'f platform \<Rightarrow> 'f yaml \<Rightarrow> string outcome" where
  "py_str P (YStr s) = Ok s"
| "py_str P v = raised (str_of_nonstr P v)"

fun replace_quotes :: "'f yaml \<Rightarrow> 'f yaml outcome" where
  \<comment> \<open>\<^verbatim>\<open>v.replace('\'', '').replace('\"', '')\<close>\<close>
  "replace_quotes (YStr s) =
     Ok (YStr (filter (\<lambda>c. c \<noteq> CHR 0x22) (filter (\<lambda>c. c \<noteq> CHR 0x27) s)))"
| "replace_quotes _ = Raise AttributeError"

subsection \<open>numpy's element-wise comparison\<close>

text \<open>
  \<^verbatim>\<open>np.greater_equal(a, b).all()\<close> is interpreted where both arguments are integers that
  fit 64 bits or flat lists of such: a scalar is broadcast like a list of length one,
  two lists of different lengths greater than one cannot be broadcast. With \<^verbatim>\<open>None\<close>
  on the left every element comparison raises, so the call raises as soon as there is
  an element to compare. Every other pair of arguments is left to the platform.
\<close>

definition int64 :: "int \<Rightarrow> bool" where
  "int64 i = (- (2 ^ 63) \<le> i \<and> i < 2 ^ 63)"

fun int_elem :: "'f yaml \<Rightarrow> int option" where
  "int_elem (YInt i) = (if int64 i then Some i else None)"
| "int_elem _ = None"

fun int_array :: "'f yaml \<Rightarrow> int list option" where
  "int_array (YInt i) = (if int64 i then Some [i] else None)"
| "int_array (YList xs) =
     (if list_all (\<lambda>x. int_elem x \<noteq> None) xs then Some (map (\<lambda>x. the (int_elem x)) xs) else None)"
| "int_array _ = None"

definition ge_all :: "int list \<Rightarrow> int list \<Rightarrow> bool outcome" where
  "ge_all xs ys =
     (if length xs = length ys then Ok (list_all2 (\<lambda>x y. x \<ge> y) xs ys)
      else if length xs = 1 then Ok (list_all (\<lambda>y. hd xs \<ge> y) ys)
      else if length ys = 1 then Ok (list_all (\<lambda>x. x \<ge> hd ys) xs)
      else Raise ValueError)"

definition greater_equal_all :: "'f platform \<Rightarrow> 'f yaml \<Rightarrow> 'f yaml \<Rightarrow> bool outcome" where
  "greater_equal_all P a b =
     (case int_array b of
        None \<Rightarrow> raised (ge_all_other P a b)
      | Some ys \<Rightarrow>
          (if a = YNone then (if ys = [] then Ok True else Raise TypeError)
           else (case int_array a of
                   None \<Rightarrow> raised (ge_all_other P a b)
                 | Some xs \<Rightarrow> ge_all xs ys)))"

section \<open>The version comparator\<close>

fun split_on :: "char \<Rightarrow> string \<Rightarrow> string list" where
  \<comment> \<open>\<^verbatim>\<open>s.split(sep)\<close> for a one-character separator\<close>
  "split_on sep [] = [[]]"
| "split_on sep (c # s) =
     (if c = sep then [] # split_on sep s
      else (case split_on sep s of [] \<Rightarrow> [[c]] | w # ws \<Rightarrow> (c # w) # ws))"

definition remaining :: "string list \<Rightarrow> string list" where
  \<comment> \<open>\<^verbatim>\<open>if len(version_string_split) > 3: del version_string_split[-1]\<close>\<close>
  "remaining parts = (if length parts > 3 then butlast parts else parts)"

fun parse_version :: "'f platform \<Rightarrow> 'f yaml \<Rightarrow> int outcome" where
  "parse_version P (YStr version_string) =
     (case int_of_string P (concat (remaining (split_on CHR ''.'' version_string))) of
        None \<Rightarrow> Raise ValueError
      | Some n \<Rightarrow> Ok n)"
| "parse_version P _ = Raise AttributeError"

section \<open>The rules of \<^verbatim>\<open>parseConfig\<close>, in the order of the source\<close>

text \<open>
  Each rule maps the state before it to the state after it, to a fatal exit or to an
  exception. Notices printed on the way are not part of the result and are left out.
  The engine's version string, which the source asks the package manager for, is the
  argument \<open>gandlf_version\<close>.
\<close>

definition version_missing :: string where
  "version_missing = ''The 'version' key needs to be defined in config with 'minimum' and 'maximum' fields to determine the compatibility of configuration with code base''"

definition version_incompatible :: "string \<Rightarrow> string" where
  "version_incompatible gandlf_version =
     ''Incompatible version of GANDLF detected ('' @ gandlf_version @ '')''"

definition version_rule :: "'f platform \<Rightarrow> string \<Rightarrow> 'f state \<Rightarrow> 'f state outcome" where
  "version_rule P gandlf_version s =
     (if \<not> has_key (fst s) ''version'' then Fatal version_missing
      else
        then_do (parse_version P (YStr gandlf_version)) (\<lambda>gandlf_version_int.
        then_do (lookup (fst s) ''version'') (\<lambda>v.
        then_do (getitem v (YStr ''minimum'')) (\<lambda>lo.
        then_do (parse_version P lo) (\<lambda>min.
        then_do (getitem v (YStr ''maximum'')) (\<lambda>hi.
        then_do (parse_version P hi) (\<lambda>max.
          if min > gandlf_version_int \<or> max < gandlf_version_int
          then Fatal (version_incompatible gandlf_version)
          else Ok s)))))))"

definition class_list_missing :: string where
  "class_list_missing = ''The 'class_list' parameter needs to be present in the configuration file''"

definition class_list_rule :: "'f state \<Rightarrow> 'f state outcome" where
  "class_list_rule s =
     (if \<not> has_key (fst s) ''class_list'' then Fatal class_list_missing else Ok s)"

definition dimension_missing :: string where
  "dimension_missing = ''The 'dimension' parameter to be defined, which should be 2 or 3''"

definition dimension_rule :: "'f platform \<Rightarrow> 'f state \<Rightarrow> 'f state outcome" where
  "dimension_rule P s =
     then_do (lookup (fst s) ''dimension'') (\<lambda>v.
       if \<not> truthy P v then Fatal dimension_missing else Ok s)"

definition patch_size_missing :: string where
  "patch_size_missing = ''The 'patch_size' parameter needs to be present in the configuration file''"

definition patch_size_rule :: "'f state \<Rightarrow> 'f state outcome" where
  "patch_size_rule s =
     (if has_key (fst s) ''patch_size''
      then then_do (lookup (fst s) ''patch_size'') (\<lambda>v.
             Ok (AList.update ''psize'' v (fst s), snd s))
      else Fatal patch_size_missing)"

definition resize_too_small :: string where
  "resize_too_small = ''The 'resize' parameter needs to be greater than or equal to 'patch_size'' @ [CHR 0x27]"

definition resize_rule :: "'f platform \<Rightarrow> 'f state \<Rightarrow> 'f state outcome" where
  "resize_rule P s =
     (if has_key (fst s) ''resize''
      then then_do (lookup (fst s) ''resize'') (\<lambda>r.
           then_do (lookup (fst s) ''psize'') (\<lambda>p.
           then_do (greater_equal_all P r p) (\<lambda>ok.
             if \<not> ok then Fatal resize_too_small else Ok s)))
      else Ok (AList.update ''resize'' YNone (fst s), snd s))"

text \<open>
  \<open>num_epochs\<close> and \<open>patience\<close>: the default of the second is the local variable the
  first has just computed.
\<close>

definition epochs_rule :: "'f platform \<Rightarrow> 'f state \<Rightarrow> 'f state outcome" where
  "epochs_rule P s =
     then_do (if has_key (fst s) ''num_epochs''
              then then_do (lookup (fst s) ''num_epochs'') (py_int P)
              else Ok 100) (\<lambda>num_epochs.
     let d = AList.update ''num_epochs'' (YInt num_epochs) (fst s) in
     then_do (if has_key d ''patience''
              then then_do (lookup d ''patience'') (py_int P)
              else Ok num_epochs) (\<lambda>patience.
     Ok (AList.update ''patience'' (YInt patience) d, snd s)))"

text \<open>
  The rule the source repeats for most optional fields: convert the value when the key
  is there, take the default otherwise, and store the result under the key.
\<close>

definition default_rule ::
  "string \<Rightarrow> ('f yaml \<Rightarrow> 'f yaml outcome) \<Rightarrow> 'f yaml \<Rightarrow> 'f state \<Rightarrow> 'f state outcome" where
  "default_rule name convert dflt s =
     then_do (if has_key (fst s) name
              then then_do (lookup (fst s) name) convert
              else Ok dflt) (\<lambda>x.
     Ok (AList.update name x (fst s), snd s))"

definition to_int :: "'f platform \<Rightarrow> 'f yaml \<Rightarrow> 'f yaml outcome" where
  "to_int P v = then_do (py_int P v) (\<lambda>i. Ok (YInt i))"

definition to_float :: "'f platform \<Rightarrow> 'f yaml \<Rightarrow> 'f yaml outcome" where
  "to_float P v = then_do (py_float P v) (\<lambda>x. Ok (YFloat x))"

definition to_bool :: "'f platform \<Rightarrow> 'f yaml \<Rightarrow> 'f yaml outcome" where
  "to_bool P v = Ok (YBool (truthy P v))"

definition to_str :: "'f platform \<Rightarrow> 'f yaml \<Rightarrow> 'f yaml outcome" where
  "to_str P v = then_do (py_str P v) (\<lambda>s. Ok (YStr s))"

definition batch_size_rule :: "'f platform \<Rightarrow> 'f state \<Rightarrow> 'f state outcome" where
  "batch_size_rule P = default_rule ''batch_size'' (to_int P) (YInt 1)"

definition amp_rule :: "'f platform \<Rightarrow> 'f state \<Rightarrow> 'f state outcome" where
  "amp_rule P = default_rule ''amp'' (to_bool P) (YBool False)"

definition learning_rate_rule :: "'f platform \<Rightarrow> 'f state \<Rightarrow> 'f state outcome" where
  "learning_rate_rule P =
     default_rule ''learning_rate'' (to_float P) (YFloat (default_learning_rate P))"

subsection \<open>The loss function\<close>

definition fill_entry ::
  "'f doc \<Rightarrow> string \<Rightarrow> 'f yaml \<Rightarrow> string \<Rightarrow> 'f yaml \<Rightarrow> 'f doc outcome" where
  \<comment> \<open>the statement the source has for the loss function and for the augmentations:
      \<^verbatim>\<open>if (params[name][key] == None) or not(sub in params[name][key]):\<close>
      \<^verbatim>\<open>  params[name][key] = {}; params[name][key][sub] = x\<close>\<close>
  "fill_entry d name key sub x =
     then_do (lookup d name) (\<lambda>c.
     then_do (getitem c key) (\<lambda>e.
     then_do (if e = YNone then Ok True
              else then_do (contains sub e) (\<lambda>has. Ok (\<not> has))) (\<lambda>fill.
       if fill then
         then_do (store2 d name key (YDict [])) (\<lambda>d1.
         store3 d1 name key sub x)
       else Ok d)))"

definition loss_body :: "'f yaml \<Rightarrow> 'f doc \<Rightarrow> 'f doc outcome" where
  \<comment> \<open>the body of \<^verbatim>\<open>for key in params['loss_function']\<close>\<close>
  "loss_body key d =
     (if key = YStr ''mse''
      then fill_entry d ''loss_function'' key ''reduction'' (YStr ''mean'')
      else Ok (AList.update ''loss_function'' key d))"

fun loss_loop :: "'f yaml list \<Rightarrow> 'f state \<Rightarrow> 'f state outcome" where
  "loss_loop [] s = Ok s"
| "loss_loop (key # keys) s =
     then_do (loss_body key (fst s)) (\<lambda>d. loss_loop keys (d, Some key))"

definition loss_given :: "'f yaml \<Rightarrow> 'f state \<Rightarrow> ('f state \<times> bool) outcome" where
  \<comment> \<open>the branch for a document with the key, \<open>lf\<close> its value; the result is the
      state and the flag \<open>defineDefaultLoss\<close>\<close>
  "loss_given lf s =
     (if is_dict lf then
        then_do (py_len lf) (\<lambda>n.
          if n > 0 then
            then_do (py_iter lf) (\<lambda>keys.
            then_do (loss_loop keys s) (\<lambda>s1. Ok (s1, False)))
          else Ok (s, True))
      else if lf = YStr ''mse'' then
        Ok ((AList.update ''loss_function''
               (YDict [(''mse'', YDict [(''reduction'', YStr ''mean'')])]) (fst s), snd s),
            False)
      else Ok (s, False))"

definition loss_store :: "'f state \<times> bool \<Rightarrow> 'f state outcome" where
  \<comment> \<open>the end of the rule: the default tag or the value now under the key\<close>
  "loss_store r =
     then_do (if snd r then Ok (YStr ''dc'')
              else lookup (fst (fst r)) ''loss_function'') (\<lambda>loss_function.
     Ok (AList.update ''loss_function'' loss_function (fst (fst r)), snd (fst r)))"

definition loss_function_rule :: "'f state \<Rightarrow> 'f state outcome" where
  "loss_function_rule s =
     then_do (if has_key (fst s) ''loss_function''
              then then_do (lookup (fst s) ''loss_function'') (\<lambda>lf. loss_given lf s)
              else Ok (s, True))
       loss_store"

definition opt_rule :: "'f platform \<Rightarrow> 'f state \<Rightarrow> 'f state outcome" where
  "opt_rule P = default_rule ''opt'' (to_str P) (YStr ''adam'')"

subsection \<open>Augmentation and pre-processing\<close>

definition keysToSkip :: "'f yaml list" where
  "keysToSkip = [YStr ''normalize'', YStr ''resample'', YStr ''threshold'', YStr ''clip'']"

definition augmentation_body :: "'f state \<Rightarrow> 'f state outcome" where
  \<comment> \<open>the statements under \<^verbatim>\<open>if len(params['data_augmentation']) > 0\<close>. The source has
      no loop here: \<open>key\<close> is whatever the loss-function loop left\<close>
  "augmentation_body s =
     (case snd s of
        None \<Rightarrow> Raise UnboundLocalError
      | Some key \<Rightarrow>
          if key \<notin> set keysToSkip
          then then_do (fill_entry (fst s) ''data_augmentation'' key ''probability'' (YInt 1))
                 (\<lambda>d. Ok (d, snd s))
          else Ok s)"

definition data_augmentation_rule :: "'f state \<Rightarrow> 'f state outcome" where
  "data_augmentation_rule s =
     then_do (lookup (fst s) ''data_augmentation'') (\<lambda>da.
     then_do (py_len da) (\<lambda>n.
       if n > 0 then augmentation_body s else Ok s))"

definition thresholdOrClipDict :: "'f yaml list" where
  "thresholdOrClipDict = [YStr ''threshold'', YStr ''clip'']"

definition both_threshold_and_clip :: string where
  "both_threshold_and_clip = ''Use only 'threshold' or 'clip', not both''"

definition fill_bound :: "'f doc \<Rightarrow> 'f yaml \<Rightarrow> string \<Rightarrow> 'f \<Rightarrow> 'f doc outcome" where
  \<comment> \<open>\<^verbatim>\<open>if not sub in params['data_preprocessing'][key]: ...[key][sub] = x\<close>\<close>
  "fill_bound d key sub x =
     then_do (lookup d ''data_preprocessing'') (\<lambda>dp.
     then_do (getitem dp key) (\<lambda>e.
     then_do (contains sub e) (\<lambda>c.
       if \<not> c then store3 d ''data_preprocessing'' key sub (YFloat x) else Ok d)))"

fun preprocessing_loop ::
  "'f platform \<Rightarrow> 'f yaml list \<Rightarrow> bool \<Rightarrow> 'f state \<Rightarrow> 'f state outcome" where
  "preprocessing_loop P [] thresholdOrClip s = Ok s"
| "preprocessing_loop P (key # keys) thresholdOrClip s =
     (if \<not> thresholdOrClip then
        (if key \<in> set thresholdOrClipDict then
           then_do (lookup (fst s) ''data_preprocessing'') (\<lambda>dp.
           then_do (getitem dp key) (\<lambda>e.
           then_do (if \<not> is_dict e then store2 (fst s) ''data_preprocessing'' key (YDict [])
                    else Ok (fst s)) (\<lambda>d1.
           then_do (fill_bound d1 key ''min'' (float_info_min P)) (\<lambda>d2.
           then_do (fill_bound d2 key ''max'' (float_info_max P)) (\<lambda>d3.
           preprocessing_loop P keys True (d3, Some key))))))
         else preprocessing_loop P keys False (fst s, Some key))
      else Fatal both_threshold_and_clip)"

definition data_preprocessing_rule :: "'f platform \<Rightarrow> 'f state \<Rightarrow> 'f state outcome" where
  \<comment> \<open>the guard is \<^verbatim>\<open>len(params['data_preprocessing']) < 0\<close>\<close>
  "data_preprocessing_rule P s =
     then_do (lookup (fst s) ''data_preprocessing'') (\<lambda>dp.
     then_do (py_len dp) (\<lambda>n.
       if int n < 0 then
         then_do (py_iter dp) (\<lambda>keys. preprocessing_loop P keys False s)
       else Ok s))"

subsection \<open>The model\<close>

definition base_filters_rule :: "'f platform \<Rightarrow> 'f state \<Rightarrow> 'f state outcome" where
  "base_filters_rule P = default_rule ''base_filters'' (to_int P) (YInt 30)"

definition which_model_rule :: "'f platform \<Rightarrow> 'f state \<Rightarrow> 'f state outcome" where
  "which_model_rule P s =
     then_do (if has_key (fst s) ''modelName''
              then then_do (lookup (fst s) ''modelName'') (py_str P)
              else if has_key (fst s) ''which_model''
              then then_do (lookup (fst s) ''which_model'') (py_str P)
              else Ok ''resunet'') (\<lambda>which_model.
     Ok (AList.update ''which_model'' (YStr which_model) (fst s), snd s))"

definition model_not_dict :: string where
  "model_not_dict = ''The 'model' parameter needs to be populated as a dictionary''"

definition model_empty :: string where
  "model_empty = ''The 'model' parameter needs to be populated as a dictionary and should have all properties present''"

definition model_no_architecture :: string where
  "model_no_architecture = ''The 'model' parameter needs 'architecture' key to be defined''"

definition model_no_final_layer :: string where
  "model_no_final_layer = ''The 'model' parameter needs 'final_layer' key to be defined''"

definition model_rule :: "'f platform \<Rightarrow> 'f state \<Rightarrow> 'f state outcome" where
  "model_rule P s =
     (if has_key (fst s) ''model'' then
        then_do (lookup (fst s) ''model'') (\<lambda>m.
        then_do (if \<not> is_dict m then Fatal model_not_dict
                 else then_do (py_len m) (\<lambda>n.
                        if n = 0 then Fatal model_empty else Ok ())) (\<lambda>_.
        then_do (getitem m (YStr ''architecture'')) (\<lambda>a.
          if \<not> truthy P a then Fatal model_no_architecture
          else
            then_do (getitem m (YStr ''final_layer'')) (\<lambda>l.
              if \<not> truthy P l then Fatal model_no_final_layer else Ok s))))
      else Fatal model_not_dict)"

subsection \<open>Cross-validation\<close>

definition kcross_retired :: string where
  "kcross_retired = [CHR 0x27] @ ''kcross_validation' is no longer used, please use 'nested_training' instead''"

definition kcross_validation_rule :: "'f state \<Rightarrow> 'f state outcome" where
  "kcross_validation_rule s =
     (if has_key (fst s) ''kcross_validation'' then Fatal kcross_retired else Ok s)"

definition nested_training_missing :: string where
  "nested_training_missing = ''The parameter 'nested_training' needs to be defined''"

definition default_folds :: "'f yaml \<Rightarrow> string \<Rightarrow> unit outcome" where
  \<comment> \<open>\<^verbatim>\<open>if not nt[sub]: kfolds = -10; print(...); nt[sub]\<close>: the last statement reads
      the entry again and stores nothing\<close>
  "default_folds nt sub =
     then_do (getitem nt (YStr sub)) (\<lambda>_. Ok ())"

definition nested_training_rule :: "'f platform \<Rightarrow> 'f state \<Rightarrow> 'f state outcome" where
  "nested_training_rule P s =
     then_do (lookup (fst s) ''nested_training'') (\<lambda>nt.
       if \<not> truthy P nt then Fatal nested_training_missing
       else
         then_do (getitem nt (YStr ''holdout'')) (\<lambda>h.
         then_do (if \<not> truthy P h then default_folds nt ''holdout'' else Ok ()) (\<lambda>_.
         then_do (getitem nt (YStr ''validation'')) (\<lambda>v.
         then_do (if \<not> truthy P v then default_folds nt ''validation'' else Ok ()) (\<lambda>_.
         Ok s)))))"

subsection \<open>Scheduler and queue\<close>

definition scheduler_rule :: "'f platform \<Rightarrow> 'f state \<Rightarrow> 'f state outcome" where
  "scheduler_rule P = default_rule ''scheduler'' (to_str P) (YStr ''triangle'')"

definition q_max_length_rule :: "'f platform \<Rightarrow> 'f state \<Rightarrow> 'f state outcome" where
  "q_max_length_rule P = default_rule ''q_max_length'' (to_int P) (YInt 100)"

definition q_samples_per_volume_rule :: "'f platform \<Rightarrow> 'f state \<Rightarrow> 'f state outcome" where
  "q_samples_per_volume_rule P = default_rule ''q_samples_per_volume'' (to_int P) (YInt 10)"

definition q_num_workers_rule :: "'f platform \<Rightarrow> 'f state \<Rightarrow> 'f state outcome" where
  "q_num_workers_rule P = default_rule ''q_num_workers'' (to_int P) (YInt 4)"

definition q_verbose_rule :: "'f state \<Rightarrow> 'f state outcome" where
  "q_verbose_rule s =
     then_do (if has_key (fst s) ''q_verbose''
              then then_do (lookup (fst s) ''q_verbose'') (\<lambda>v. Ok (v = YStr ''True''))
              else Ok False) (\<lambda>q_verbose.
     Ok (AList.update ''q_verbose'' (YBool q_verbose) (fst s), snd s))"

definition parallel_compute_command_rule :: "'f state \<Rightarrow> 'f state outcome" where
  "parallel_compute_command_rule s =
     then_do (if has_key (fst s) ''parallel_compute_command''
              then then_do (lookup (fst s) ''parallel_compute_command'') replace_quotes
              else Ok (YStr [])) (\<lambda>parallel_compute_command.
     Ok (AList.update ''parallel_compute_command'' parallel_compute_command (fst s), snd s))"

section \<open>\<^verbatim>\<open>parseConfig\<close>\<close>

fun run :: "('s \<Rightarrow> 's outcome) list \<Rightarrow> 's \<Rightarrow> 's outcome" where
  \<comment> \<open>statements one after the other; the first exit or exception ends the run\<close>
  "run [] s = Ok s"
| "run (rule # rules) s = then_do (rule s) (run rules)"

definition rules :: "'f platform \<Rightarrow> string \<Rightarrow> ('f state \<Rightarrow> 'f state outcome) list" where
  "rules P gandlf_version =
     [version_rule P gandlf_version, class_list_rule, dimension_rule P, patch_size_rule,
      resize_rule P, epochs_rule P, batch_size_rule P, amp_rule P, learning_rate_rule P,
      loss_function_rule, opt_rule P, data_augmentation_rule, data_preprocessing_rule P,
      base_filters_rule P, which_model_rule P, model_rule P, kcross_validation_rule,
      nested_training_rule P, scheduler_rule P, q_max_length_rule P,
      q_samples_per_volume_rule P, q_num_workers_rule P, q_verbose_rule,
      parallel_compute_command_rule]"

definition parseConfig :: "'f platform \<Rightarrow> string \<Rightarrow> 'f doc \<Rightarrow> 'f doc outcome" where
  \<comment> \<open>\<open>params\<close> starts as the document, \<open>key\<close> unbound; the function returns \<open>params\<close>\<close>
  "parseConfig P gandlf_version document =
     then_do (run (rules P gandlf_version) (document, None)) (\<lambda>s. Ok (fst s))"

section \<open>\<^verbatim>\<open>parseConfig\<close> on a document with shared objects\<close>

text \<open>
  A YAML document can name a node (an anchor) and refer to it elsewhere (an alias);
  \<^verbatim>\<open>yaml.load\<close> then builds one Python object that is reached through several paths, and
  a store through one path is seen through the others. The statements of \<^verbatim>\<open>parseConfig\<close>
  that store into a nested mapping (lines 97, 98, 107, 108, 130, 131, 145 to 150) store
  in place. To follow such documents the function is embedded a second time, over an
  explicit store of objects.

  A value is a scalar or a reference to an object; an object is a mapping or a sequence
  of values; the store is the list of the objects, an object's address being its
  position. A new object is appended to the store. The dictionary \<open>params\<close> itself is kept
  apart from the store: the embedding covers the documents whose root mapping is not an
  alias target of one of its own descendants. The objects are numbered so that an
  object refers only to objects after it, which every document without a cycle allows;
  the function keeps it so, since the only references it stores into an object are those
  of objects it has just created.
\<close>

datatype 'f val =
    VNone
  | VBool bool
  | VInt int
  | VFloat 'f
  | VStr string
  | VRef nat

datatype 'f obj =
    ODict "(string \<times> 'f val) list"
  | OList "'f val list"

text \<open>
  The value a reference stands for, read off the store: what a built-in sees that
  looks at a value and stores nothing (\<^verbatim>\<open>len\<close>, \<^verbatim>\<open>in\<close>, \<^verbatim>\<open>==\<close>, \<^verbatim>\<open>isinstance\<close>, \<^verbatim>\<open>int\<close>,
  \<^verbatim>\<open>float\<close>, \<^verbatim>\<open>bool\<close>, \<^verbatim>\<open>str\<close>, numpy's comparison). Below an object at address \<open>a\<close> only
  the objects after \<open>a\<close> are looked at.
\<close>

function snap :: "'f obj list \<Rightarrow> nat \<Rightarrow> 'f val \<Rightarrow> 'f yaml" where
  "snap h lo VNone = YNone"
| "snap h lo (VBool b) = YBool b"
| "snap h lo (VInt i) = YInt i"
| "snap h lo (VFloat x) = YFloat x"
| "snap h lo (VStr s) = YStr s"
| "snap h lo (VRef a) =
     (if lo \<le> a \<and> a < length h then
        (case h ! a of
           ODict es \<Rightarrow> YDict (map (\<lambda>p. (fst p, snap h (Suc a) (snd p))) es)
         | OList vs \<Rightarrow> YList (map (snap h (Suc a)) vs))
      else YNone)"
  by pat_completeness auto
termination
  by (relation "measure (\<lambda>(h, lo, v). length h - lo)") auto

definition view :: "'f obj list \<Rightarrow> 'f val \<Rightarrow> 'f yaml" where
  "view h v = snap h 0 v"

text \<open>
  The state of a run: \<open>params\<close>, the loop variable \<open>key\<close> and the store.
\<close>

type_synonym 'f world = "(string \<times> 'f val) list \<times> 'f val option \<times> 'f obj list"

definition has_entry :: "(string \<times> 'a) list \<Rightarrow> string \<Rightarrow> bool" where
  \<comment> \<open>\<^verbatim>\<open>name in params\<close>\<close>
  "has_entry ps name = (map_of ps name \<noteq> None)"

definition entry :: "(string \<times> 'a) list \<Rightarrow> string \<Rightarrow> 'a outcome" where
  \<comment> \<open>\<^verbatim>\<open>params[name]\<close>: the value as it is stored, a reference for an object\<close>
  "entry ps name = (case map_of ps name of None \<Rightarrow> Raise KeyError | Some v \<Rightarrow> Ok v)"

definition subscript :: "'f obj list \<Rightarrow> 'f val \<Rightarrow> 'f val \<Rightarrow> 'f val outcome" where
  \<comment> \<open>\<^verbatim>\<open>v[k]\<close>, as it is stored\<close>
  "subscript h v k =
     (case v of
        VRef a \<Rightarrow>
          (if a < length h then
             (case h ! a of
                ODict es \<Rightarrow>
                  (case view h k of
                     YStr s \<Rightarrow> entry es s
                   | YList _ \<Rightarrow> Raise TypeError
                   | YDict _ \<Rightarrow> Raise TypeError
                   | _ \<Rightarrow> Raise KeyError)
              | OList vs \<Rightarrow>
                  (case int_of_key (view h k) of
                     None \<Rightarrow> Raise TypeError
                   | Some i \<Rightarrow>
                       (case index vs i of None \<Rightarrow> Raise IndexError | Some j \<Rightarrow> Ok (vs ! j))))
           else Raise TypeError)
      | VStr s \<Rightarrow>
          (case int_of_key (view h k) of
             None \<Rightarrow> Raise TypeError
           | Some i \<Rightarrow>
               (case index s i of None \<Rightarrow> Raise IndexError | Some j \<Rightarrow> Ok (VStr [s ! j])))
      | _ \<Rightarrow> Raise TypeError)"

definition assign :: "'f obj list \<Rightarrow> 'f val \<Rightarrow> 'f val \<Rightarrow> 'f val \<Rightarrow> 'f obj list outcome" where
  \<comment> \<open>\<^verbatim>\<open>v[k] = x\<close>: the object \<open>v\<close> refers to is changed where it is, so the change shows
      through every reference to it\<close>
  "assign h v k x =
     (case v of
        VRef a \<Rightarrow>
          (if a < length h then
             (case h ! a of
                ODict es \<Rightarrow>
                  (case view h k of
                     YStr s \<Rightarrow> Ok (h[a := ODict (AList.update s x es)])
                   | _ \<Rightarrow> Raise TypeError)
              | OList vs \<Rightarrow>
                  (case int_of_key (view h k) of
                     None \<Rightarrow> Raise TypeError
                   | Some i \<Rightarrow>
                       (case index vs i of
                          None \<Rightarrow> Raise IndexError
                        | Some j \<Rightarrow> Ok (h[a := OList (vs[j := x])]))))
           else Raise TypeError)
      | _ \<Rightarrow> Raise TypeError)"

definition keys_of :: "'f obj list \<Rightarrow> 'f val \<Rightarrow> 'f val list outcome" where
  \<comment> \<open>what \<^verbatim>\<open>for key in v\<close> runs through\<close>
  "keys_of h v =
     (case v of
        VRef a \<Rightarrow>
          (if a < length h then
             (case h ! a of
                ODict es \<Rightarrow> Ok (map (\<lambda>p. VStr (fst p)) es)
              | OList vs \<Rightarrow> Ok vs)
           else Raise TypeError)
      | VStr s \<Rightarrow> Ok (map (\<lambda>c. VStr [c]) s)
      | _ \<Rightarrow> Raise TypeError)"

definition store2_shared ::
  "(string \<times> 'f val) list \<Rightarrow> 'f obj list \<Rightarrow> string \<Rightarrow> 'f val \<Rightarrow> 'f val \<Rightarrow> 'f obj list outcome" where
  \<comment> \<open>\<^verbatim>\<open>params[name][k] = x\<close>, in place\<close>
  "store2_shared ps h name k x = then_do (entry ps name) (\<lambda>c. assign h c k x)"

definition store3_shared ::
  "(string \<times> 'f val) list \<Rightarrow> 'f obj list \<Rightarrow> string \<Rightarrow> 'f val \<Rightarrow> string \<Rightarrow> 'f val \<Rightarrow>
   'f obj list outcome" where
  \<comment> \<open>\<^verbatim>\<open>params[name][k][sub] = x\<close>, in place\<close>
  "store3_shared ps h name k sub x =
     then_do (entry ps name) (\<lambda>c.
     then_do (subscript h c k) (\<lambda>e.
     assign h e (VStr sub) x))"

subsection \<open>The rules\<close>

definition version_rule_shared :: "'f platform \<Rightarrow> string \<Rightarrow> 'f world \<Rightarrow> 'f world outcome" where
  "version_rule_shared P gandlf_version w =
     (case w of (ps, k, h) \<Rightarrow>
        if \<not> has_entry ps ''version'' then Fatal version_missing
        else
          then_do (parse_version P (YStr gandlf_version)) (\<lambda>gandlf_version_int.
          then_do (entry ps ''version'') (\<lambda>v.
          then_do (subscript h v (VStr ''minimum'')) (\<lambda>lo.
          then_do (parse_version P (view h lo)) (\<lambda>min.
          then_do (subscript h v (VStr ''maximum'')) (\<lambda>hi.
          then_do (parse_version P (view h hi)) (\<lambda>max.
            if min > gandlf_version_int \<or> max < gandlf_version_int
            then Fatal (version_incompatible gandlf_version)
            else Ok w)))))))"

definition class_list_rule_shared :: "'f world \<Rightarrow> 'f world outcome" where
  "class_list_rule_shared w =
     (case w of (ps, k, h) \<Rightarrow>
        if \<not> has_entry ps ''class_list'' then Fatal class_list_missing else Ok w)"

definition dimension_rule_shared :: "'f platform \<Rightarrow> 'f world \<Rightarrow> 'f world outcome" where
  "dimension_rule_shared P w =
     (case w of (ps, k, h) \<Rightarrow>
        then_do (entry ps ''dimension'') (\<lambda>v.
          if \<not> truthy P (view h v) then Fatal dimension_missing else Ok w))"

definition patch_size_rule_shared :: "'f world \<Rightarrow> 'f world outcome" where
  \<comment> \<open>\<^verbatim>\<open>params['psize'] = params['patch_size']\<close>: both keys now refer to one object\<close>
  "patch_size_rule_shared w =
     (case w of (ps, k, h) \<Rightarrow>
        if has_entry ps ''patch_size''
        then then_do (entry ps ''patch_size'') (\<lambda>v. Ok (AList.update ''psize'' v ps, k, h))
        else Fatal patch_size_missing)"

definition resize_rule_shared :: "'f platform \<Rightarrow> 'f world \<Rightarrow> 'f world outcome" where
  "resize_rule_shared P w =
     (case w of (ps, k, h) \<Rightarrow>
        if has_entry ps ''resize''
        then then_do (entry ps ''resize'') (\<lambda>r.
             then_do (entry ps ''psize'') (\<lambda>p.
             then_do (greater_equal_all P (view h r) (view h p)) (\<lambda>ok.
               if \<not> ok then Fatal resize_too_small else Ok w)))
        else Ok (AList.update ''resize'' VNone ps, k, h))"

definition epochs_rule_shared :: "'f platform \<Rightarrow> 'f world \<Rightarrow> 'f world outcome" where
  "epochs_rule_shared P w =
     (case w of (ps, k, h) \<Rightarrow>
        then_do (if has_entry ps ''num_epochs''
                 then then_do (entry ps ''num_epochs'') (\<lambda>v. py_int P (view h v))
                 else Ok 100) (\<lambda>num_epochs.
        let ps1 = AList.update ''num_epochs'' (VInt num_epochs) ps in
        then_do (if has_entry ps1 ''patience''
                 then then_do (entry ps1 ''patience'') (\<lambda>v. py_int P (view h v))
                 else Ok num_epochs) (\<lambda>patience.
        Ok (AList.update ''patience'' (VInt patience) ps1, k, h))))"

definition default_rule_shared ::
  "string \<Rightarrow> ('f yaml \<Rightarrow> 'f val outcome) \<Rightarrow> 'f val \<Rightarrow> 'f world \<Rightarrow> 'f world outcome" where
  \<comment> \<open>the conversions look at the value only and give a scalar\<close>
  "default_rule_shared name convert dflt w =
     (case w of (ps, k, h) \<Rightarrow>
        then_do (if has_entry ps name
                 then then_do (entry ps name) (\<lambda>v. convert (view h v))
                 else Ok dflt) (\<lambda>x.
        Ok (AList.update name x ps, k, h)))"

definition to_int_shared :: "'f platform \<Rightarrow> 'f yaml \<Rightarrow> 'f val outcome" where
  "to_int_shared P v = then_do (py_int P v) (\<lambda>i. Ok (VInt i))"

definition to_float_shared :: "'f platform \<Rightarrow> 'f yaml \<Rightarrow> 'f val outcome" where
  "to_float_shared P v = then_do (py_float P v) (\<lambda>x. Ok (VFloat x))"

definition to_bool_shared :: "'f platform \<Rightarrow> 'f yaml \<Rightarrow> 'f val outcome" where
  "to_bool_shared P v = Ok (VBool (truthy P v))"

definition to_str_shared :: "'f platform \<Rightarrow> 'f yaml \<Rightarrow> 'f val outcome" where
  "to_str_shared P v = then_do (py_str P v) (\<lambda>s. Ok (VStr s))"

definition batch_size_rule_shared :: "'f platform \<Rightarrow> 'f world \<Rightarrow> 'f world outcome" where
  "batch_size_rule_shared P = default_rule_shared ''batch_size'' (to_int_shared P) (VInt 1)"

definition amp_rule_shared :: "'f platform \<Rightarrow> 'f world \<Rightarrow> 'f world outcome" where
  "amp_rule_shared P = default_rule_shared ''amp'' (to_bool_shared P) (VBool False)"

definition learning_rate_rule_shared :: "'f platform \<Rightarrow> 'f world \<Rightarrow> 'f world outcome" where
  "learning_rate_rule_shared P =
     default_rule_shared ''learning_rate'' (to_float_shared P) (VFloat (default_learning_rate P))"

definition fill_entry_shared ::
  "(string \<times> 'f val) list \<Rightarrow> 'f obj list \<Rightarrow> string \<Rightarrow> 'f val \<Rightarrow> string \<Rightarrow> 'f val \<Rightarrow>
   'f obj list outcome" where
  \<comment> \<open>\<^verbatim>\<open>if (params[name][key] == None) or not(sub in params[name][key]):\<close>
      \<^verbatim>\<open>  params[name][key] = {}; params[name][key][sub] = x\<close>,
      the new mapping being the object appended to the store\<close>
  "fill_entry_shared ps h name key sub x =
     then_do (entry ps name) (\<lambda>c.
     then_do (subscript h c key) (\<lambda>e.
     then_do (if e = VNone then Ok True
              else then_do (contains sub (view h e)) (\<lambda>has. Ok (\<not> has))) (\<lambda>fill.
       if fill then
         then_do (store2_shared ps (h @ [ODict []]) name key (VRef (length h))) (\<lambda>h1.
         store3_shared ps h1 name key sub x)
       else Ok h)))"

definition loss_body_shared ::
  "'f val \<Rightarrow> (string \<times> 'f val) list \<times> 'f obj list \<Rightarrow>
   ((string \<times> 'f val) list \<times> 'f obj list) outcome" where
  "loss_body_shared key r =
     (case r of (ps, h) \<Rightarrow>
        if key = VStr ''mse''
        then then_do (fill_entry_shared ps h ''loss_function'' key ''reduction'' (VStr ''mean''))
               (\<lambda>h1. Ok (ps, h1))
        else Ok (AList.update ''loss_function'' key ps, h))"

fun loss_loop_shared :: "'f val list \<Rightarrow> 'f world \<Rightarrow> 'f world outcome" where
  "loss_loop_shared [] w = Ok w"
| "loss_loop_shared (key # keys) w =
     then_do (loss_body_shared key (fst w, snd (snd w)))
       (\<lambda>r. loss_loop_shared keys (fst r, Some key, snd r))"

definition loss_given_shared :: "'f val \<Rightarrow> 'f world \<Rightarrow> ('f world \<times> bool) outcome" where
  "loss_given_shared lf w =
     (case w of (ps, k, h) \<Rightarrow>
        if is_dict (view h lf) then
          then_do (py_len (view h lf)) (\<lambda>n.
            if n > 0 then
              then_do (keys_of h lf) (\<lambda>keys.
              then_do (loss_loop_shared keys w) (\<lambda>w1. Ok (w1, False)))
            else Ok (w, True))
        else if lf = VStr ''mse'' then
          (let ps1 = AList.update ''loss_function'' (VRef (length h)) ps;
               h1 = h @ [ODict []]
           in then_do (store2_shared ps1 (h1 @ [ODict []]) ''loss_function'' (VStr ''mse'')
                         (VRef (length h1))) (\<lambda>h2.
              then_do (store3_shared ps1 h2 ''loss_function'' (VStr ''mse'') ''reduction''
                         (VStr ''mean'')) (\<lambda>h3.
              Ok ((ps1, k, h3), False))))
        else Ok (w, False))"

definition loss_store_shared :: "'f world \<times> bool \<Rightarrow> 'f world outcome" where
  "loss_store_shared r =
     (case r of ((ps, k, h), defineDefaultLoss) \<Rightarrow>
        then_do (if defineDefaultLoss then Ok (VStr ''dc'')
                 else entry ps ''loss_function'') (\<lambda>loss_function.
        Ok (AList.update ''loss_function'' loss_function ps, k, h)))"

definition loss_function_rule_shared :: "'f world \<Rightarrow> 'f world outcome" where
  "loss_function_rule_shared w =
     (case w of (ps, k, h) \<Rightarrow>
        then_do (if has_entry ps ''loss_function''
                 then then_do (entry ps ''loss_function'') (\<lambda>lf. loss_given_shared lf w)
                 else Ok (w, True))
          loss_store_shared)"

definition opt_rule_shared :: "'f platform \<Rightarrow> 'f world \<Rightarrow> 'f world outcome" where
  "opt_rule_shared P = default_rule_shared ''opt'' (to_str_shared P) (VStr ''adam'')"

definition keysToSkip_shared :: "'f val list" where
  "keysToSkip_shared = [VStr ''normalize'', VStr ''resample'', VStr ''threshold'', VStr ''clip'']"

definition augmentation_body_shared :: "'f world \<Rightarrow> 'f world outcome" where
  "augmentation_body_shared w =
     (case w of (ps, k, h) \<Rightarrow>
        (case k of
           None \<Rightarrow> Raise UnboundLocalError
         | Some key \<Rightarrow>
             if key \<notin> set keysToSkip_shared
             then then_do (fill_entry_shared ps h ''data_augmentation'' key ''probability'' (VInt 1))
                    (\<lambda>h1. Ok (ps, k, h1))
             else Ok w))"

definition data_augmentation_rule_shared :: "'f world \<Rightarrow> 'f world outcome" where
  "data_augmentation_rule_shared w =
     (case w of (ps, k, h) \<Rightarrow>
        then_do (entry ps ''data_augmentation'') (\<lambda>da.
        then_do (py_len (view h da)) (\<lambda>n.
          if n > 0 then augmentation_body_shared w else Ok w)))"

definition thresholdOrClipDict_shared :: "'f val list" where
  "thresholdOrClipDict_shared = [VStr ''threshold'', VStr ''clip'']"

definition fill_bound_shared ::
  "(string \<times> 'f val) list \<Rightarrow> 'f obj list \<Rightarrow> 'f val \<Rightarrow> string \<Rightarrow> 'f \<Rightarrow> 'f obj list outcome" where
  "fill_bound_shared ps h key sub x =
     then_do (entry ps ''data_preprocessing'') (\<lambda>dp.
     then_do (subscript h dp key) (\<lambda>e.
     then_do (contains sub (view h e)) (\<lambda>c.
       if \<not> c then store3_shared ps h ''data_preprocessing'' key sub (VFloat x) else Ok h)))"

fun preprocessing_loop_shared ::
  "'f platform \<Rightarrow> 'f val list \<Rightarrow> bool \<Rightarrow> 'f world \<Rightarrow> 'f world outcome" where
  "preprocessing_loop_shared P [] thresholdOrClip w = Ok w"
| "preprocessing_loop_shared P (key # keys) thresholdOrClip w =
     (if \<not> thresholdOrClip then
        (if key \<in> set thresholdOrClipDict_shared then
           then_do (entry (fst w) ''data_preprocessing'') (\<lambda>dp.
           then_do (subscript (snd (snd w)) dp key) (\<lambda>e.
           then_do (if \<not> is_dict (view (snd (snd w)) e)
                    then store2_shared (fst w) (snd (snd w) @ [ODict []]) ''data_preprocessing'' key
                           (VRef (length (snd (snd w))))
                    else Ok (snd (snd w))) (\<lambda>h1.
           then_do (fill_bound_shared (fst w) h1 key ''min'' (float_info_min P)) (\<lambda>h2.
           then_do (fill_bound_shared (fst w) h2 key ''max'' (float_info_max P)) (\<lambda>h3.
           preprocessing_loop_shared P keys True (fst w, Some key, h3))))))
         else preprocessing_loop_shared P keys False (fst w, Some key, snd (snd w)))
      else Fatal both_threshold_and_clip)"

definition data_preprocessing_rule_shared :: "'f platform \<Rightarrow> 'f world \<Rightarrow> 'f world outcome" where
  "data_preprocessing_rule_shared P w =
     (case w of (ps, k, h) \<Rightarrow>
        then_do (entry ps ''data_preprocessing'') (\<lambda>dp.
        then_do (py_len (view h dp)) (\<lambda>n.
          if int n < 0 then
            then_do (keys_of h dp) (\<lambda>keys. preprocessing_loop_shared P keys False w)
          else Ok w)))"

definition base_filters_rule_shared :: "'f platform \<Rightarrow> 'f world \<Rightarrow> 'f world outcome" where
  "base_filters_rule_shared P = default_rule_shared ''base_filters'' (to_int_shared P) (VInt 30)"

definition which_model_rule_shared :: "'f platform \<Rightarrow> 'f world \<Rightarrow> 'f world outcome" where
  "which_model_rule_shared P w =
     (case w of (ps, k, h) \<Rightarrow>
        then_do (if has_entry ps ''modelName''
                 then then_do (entry ps ''modelName'') (\<lambda>v. py_str P (view h v))
                 else if has_entry ps ''which_model''
                 then then_do (entry ps ''which_model'') (\<lambda>v. py_str P (view h v))
                 else Ok ''resunet'') (\<lambda>which_model.
        Ok (AList.update ''which_model'' (VStr which_model) ps, k, h)))"

definition model_rule_shared :: "'f platform \<Rightarrow> 'f world \<Rightarrow> 'f world outcome" where
  "model_rule_shared P w =
     (case w of (ps, k, h) \<Rightarrow>
        if has_entry ps ''model'' then
          then_do (entry ps ''model'') (\<lambda>m.
          then_do (if \<not> is_dict (view h m) then Fatal model_not_dict
                   else then_do (py_len (view h m)) (\<lambda>n.
                          if n = 0 then Fatal model_empty else Ok ())) (\<lambda>_.
          then_do (subscript h m (VStr ''architecture'')) (\<lambda>a.
            if \<not> truthy P (view h a) then Fatal model_no_architecture
            else
              then_do (subscript h m (VStr ''final_layer'')) (\<lambda>l.
                if \<not> truthy P (view h l) then Fatal model_no_final_layer else Ok w))))
        else Fatal model_not_dict)"

definition kcross_validation_rule_shared :: "'f world \<Rightarrow> 'f world outcome" where
  "kcross_validation_rule_shared w =
     (case w of (ps, k, h) \<Rightarrow>
        if has_entry ps ''kcross_validation'' then Fatal kcross_retired else Ok w)"

definition default_folds_shared :: "'f obj list \<Rightarrow> 'f val \<Rightarrow> string \<Rightarrow> unit outcome" where
  "default_folds_shared h nt sub = then_do (subscript h nt (VStr sub)) (\<lambda>_. Ok ())"

definition nested_training_rule_shared :: "'f platform \<Rightarrow> 'f world \<Rightarrow> 'f world outcome" where
  "nested_training_rule_shared P w =
     (case w of (ps, k, h) \<Rightarrow>
        then_do (entry ps ''nested_training'') (\<lambda>nt.
          if \<not> truthy P (view h nt) then Fatal nested_training_missing
          else
            then_do (subscript h nt (VStr ''holdout'')) (\<lambda>ho.
            then_do (if \<not> truthy P (view h ho) then default_folds_shared h nt ''holdout''
                     else Ok ()) (\<lambda>_.
            then_do (subscript h nt (VStr ''validation'')) (\<lambda>va.
            then_do (if \<not> truthy P (view h va) then default_folds_shared h nt ''validation''
                     else Ok ()) (\<lambda>_.
            Ok w))))))"

definition scheduler_rule_shared :: "'f platform \<Rightarrow> 'f world \<Rightarrow> 'f world outcome" where
  "scheduler_rule_shared P = default_rule_shared ''scheduler'' (to_str_shared P) (VStr ''triangle'')"

definition q_max_length_rule_shared :: "'f platform \<Rightarrow> 'f world \<Rightarrow> 'f world outcome" where
  "q_max_length_rule_shared P = default_rule_shared ''q_max_length'' (to_int_shared P) (VInt 100)"

definition q_samples_per_volume_rule_shared :: "'f platform \<Rightarrow> 'f world \<Rightarrow> 'f world outcome" where
  "q_samples_per_volume_rule_shared P =
     default_rule_shared ''q_samples_per_volume'' (to_int_shared P) (VInt 10)"

definition q_num_workers_rule_shared :: "'f platform \<Rightarrow> 'f world \<Rightarrow> 'f world outcome" where
  "q_num_workers_rule_shared P = default_rule_shared ''q_num_workers'' (to_int_shared P) (VInt 4)"

definition q_verbose_rule_shared :: "'f world \<Rightarrow> 'f world outcome" where
  "q_verbose_rule_shared w =
     (case w of (ps, k, h) \<Rightarrow>
        then_do (if has_entry ps ''q_verbose''
                 then then_do (entry ps ''q_verbose'') (\<lambda>v. Ok (v = VStr ''True''))
                 else Ok False) (\<lambda>q_verbose.
        Ok (AList.update ''q_verbose'' (VBool q_verbose) ps, k, h)))"

definition replace_quotes_shared :: "'f val \<Rightarrow> 'f val outcome" where
  "replace_quotes_shared v =
     (case v of
        VStr s \<Rightarrow> Ok (VStr (filter (\<lambda>c. c \<noteq> CHR 0x22) (filter (\<lambda>c. c \<noteq> CHR 0x27) s)))
      | _ \<Rightarrow> Raise AttributeError)"

definition parallel_compute_command_rule_shared :: "'f world \<Rightarrow> 'f world outcome" where
  "parallel_compute_command_rule_shared w =
     (case w of (ps, k, h) \<Rightarrow>
        then_do (if has_entry ps ''parallel_compute_command''
                 then then_do (entry ps ''parallel_compute_command'') replace_quotes_shared
                 else Ok (VStr [])) (\<lambda>parallel_compute_command.
        Ok (AList.update ''parallel_compute_command'' parallel_compute_command ps, k, h)))"

definition rules_shared :: "'f platform \<Rightarrow> string \<Rightarrow> ('f world \<Rightarrow> 'f world outcome) list" where
  "rules_shared P gandlf_version =
     [version_rule_shared P gandlf_version, class_list_rule_shared, dimension_rule_shared P,
      patch_size_rule_shared, resize_rule_shared P, epochs_rule_shared P,
      batch_size_rule_shared P, amp_rule_shared P, learning_rate_rule_shared P,
      loss_function_rule_shared, opt_rule_shared P, data_augmentation_rule_shared,
      data_preprocessing_rule_shared P, base_filters_rule_shared P, which_model_rule_shared P,
      model_rule_shared P, kcross_validation_rule_shared, nested_training_rule_shared P,
      scheduler_rule_shared P, q_max_length_rule_shared P, q_samples_per_volume_rule_shared P,
      q_num_workers_rule_shared P, q_verbose_rule_shared, parallel_compute_command_rule_shared]"

definition parseConfig_shared ::
  "'f platform \<Rightarrow> string \<Rightarrow> (string \<times> 'f val) list \<times> 'f obj list \<Rightarrow>
   ((string \<times> 'f val) list \<times> 'f obj list) outcome" where
  \<comment> \<open>the argument is the loaded document, \<open>params\<close> and the objects it refers to; so is
      the result\<close>
  "parseConfig_shared P gandlf_version document =
     then_do (run (rules_shared P gandlf_version) (fst document, None, snd document))
       (\<lambda>w. Ok (fst w, snd (snd w)))"

definition read_off :: "(string \<times> 'f val) list \<times> 'f obj list \<Rightarrow> 'f doc" where
  \<comment> \<open>a loaded document written out as a tree, every alias replaced by a copy of what
      it refers to\<close>
  "read_off document = map (\<lambda>p. (fst p, view (snd document) (snd p))) (fst document)"

section \<open>Notions of the specification and sample documents\<close>



text \<open>
  A platform to run the function on: floats are exact rationals, \<^verbatim>\<open>float\<close> reads
  integer literals only, integer strings have the default limit of 4300 digits, and what
  is left to the platform elsewhere is refused or printed as a question mark. It is an
  instance to evaluate examples on; every general statement below holds for all
  platforms.
\<close>

definition ideal :: "rat platform" where
  "ideal =
     \<lparr> float_of_int = (\<lambda>i. Inr (of_int i)),
       float_of_str = (\<lambda>s. case int_literal 0 s of None \<Rightarrow> Inl ValueError | Some i \<Rightarrow> Inr (of_int i)),
       int_of_float = (\<lambda>x. Inr (if x \<ge> 0 then \<lfloor>x\<rfloor> else \<lceil>x\<rceil>)),
       float_nonzero = (\<lambda>x. x \<noteq> 0),
       str_of_nonstr = (\<lambda>v. Inr ''?''),
       int_max_str_digits = 4300,
       ge_all_other = (\<lambda>a b. Inl TypeError),
       default_learning_rate = 1 / 1000,
       float_info_min = 1 / 2 ^ 1022,
       float_info_max = 2 ^ 1024 - 2 ^ 971 \<rparr>"

text \<open>
  A small document that has every field the function insists on, for engine version
  \<open>0.0.8\<close>, and the configuration the function returns for it.
\<close>

definition minimal :: "rat doc" where
  "minimal =
     [(''version'', YDict [(''minimum'', YStr ''0.0.8''), (''maximum'', YStr ''0.0.8'')]),
      (''class_list'', YList [YInt 0, YInt 1]),
      (''dimension'', YInt 3),
      (''patch_size'', YList [YInt 64, YInt 64]),
      (''data_augmentation'', YDict []),
      (''data_preprocessing'', YDict []),
      (''model'', YDict [(''architecture'', YStr ''unet''), (''final_layer'', YStr ''softmax'')]),
      (''nested_training'', YDict [(''holdout'', YInt 5), (''validation'', YInt 5)])]"

definition defaults :: "rat doc" where
  \<comment> \<open>the fields the function adds to \<open>minimal\<close> (with \<open>psize\<close> set apart), in its order\<close>
  "defaults =
     [(''resize'', YNone),
      (''num_epochs'', YInt 100), (''patience'', YInt 100),
      (''batch_size'', YInt 1), (''amp'', YBool False),
      (''learning_rate'', YFloat (1 / 1000)),
      (''loss_function'', YStr ''dc''), (''opt'', YStr ''adam''),
      (''base_filters'', YInt 30), (''which_model'', YStr ''resunet''),
      (''scheduler'', YStr ''triangle''), (''q_max_length'', YInt 100),
      (''q_samples_per_volume'', YInt 10), (''q_num_workers'', YInt 4),
      (''q_verbose'', YBool False), (''parallel_compute_command'', YStr [])]"

definition minimal_normalized :: "rat doc" where
  "minimal_normalized = minimal @ [(''psize'', YList [YInt 64, YInt 64])] @ defaults"

text \<open>
  The sample document with a loss function that is an alias of the augmentations,
  \<^verbatim>\<open>data_augmentation: &a {mse: null}\<close> and \<^verbatim>\<open>loss_function: *a\<close>: the two keys refer to one
  mapping, the object at address 3.
\<close>

definition aliased :: "(string \<times> rat val) list \<times> rat obj list" where
  "aliased =
     ([(''version'', VRef 0), (''class_list'', VRef 1), (''dimension'', VInt 3),
       (''patch_size'', VRef 2), (''data_augmentation'', VRef 3), (''loss_function'', VRef 3),
       (''data_preprocessing'', VRef 4), (''model'', VRef 5), (''nested_training'', VRef 6)],
      [ODict [(''minimum'', VStr ''0.0.8''), (''maximum'', VStr ''0.0.8'')],
       OList [VInt 0, VInt 1],
       OList [VInt 64, VInt 64],
       ODict [(''mse'', VNone)],
       ODict [],
       ODict [(''architecture'', VStr ''unet''), (''final_layer'', VStr ''softmax'')],
       ODict [(''holdout'', VInt 5), (''validation'', VInt 5)]])"

text \<open>The entry under a key in the configuration a run on shared objects returns.\<close>

definition returned_shared ::
  "string \<Rightarrow> ((string \<times> 'f val) list \<times> 'f obj list) outcome \<Rightarrow> 'f yaml option outcome" where
  "returned_shared name r = then_do r (\<lambda>out. Ok (map_of (read_off out) name))"

section \<open>Notions for the proofs\<close>

text \<open>
  A rule preserves a key when a successful run of it leaves the entry under the key as
  it was; it keeps the loop variable when a successful run leaves \<open>key\<close> as it was.
\<close>

definition preserves :: "string \<Rightarrow> ('f state \<Rightarrow> 'f state outcome) \<Rightarrow> bool" where
  "preserves name rule =
     (\<forall>s s'. rule s = Ok s' \<longrightarrow> map_of (fst s') name = map_of (fst s) name)"

definition keeps_key :: "('f state \<Rightarrow> 'f state outcome) \<Rightarrow> bool" where
  "keeps_key rule = (\<forall>s s'. rule s = Ok s' \<longrightarrow> snd s' = snd s)"

text \<open>
  The rule list in three parts: the rules that admit a document, the training options,
  and the rules after augmentation and pre-processing.
\<close>

definition admission :: "'f platform \<Rightarrow> string \<Rightarrow> ('f state \<Rightarrow> 'f state outcome) list" where
  "admission P ev = [version_rule P ev, class_list_rule, dimension_rule P, patch_size_rule, resize_rule P]"

definition training :: "'f platform \<Rightarrow> ('f state \<Rightarrow> 'f state outcome) list" where
  "training P = [epochs_rule P, batch_size_rule P, amp_rule P, learning_rate_rule P,
      loss_function_rule, opt_rule P]"

definition finishing :: "'f platform \<Rightarrow> ('f state \<Rightarrow> 'f state outcome) list" where
  "finishing P = [base_filters_rule P, which_model_rule P, model_rule P, kcross_validation_rule,
      nested_training_rule P, scheduler_rule P, q_max_length_rule P,
      q_samples_per_volume_rule P, q_num_workers_rule P, q_verbose_rule,
      parallel_compute_command_rule]"

text \<open>The entry under a key in the configuration a run returns.\<close>

definition returned :: "string \<Rightarrow> 'f doc outcome \<Rightarrow> 'f yaml option outcome" where
  "returned name r = then_do r (\<lambda>out. Ok (map_of out name))"

text \<open>Whether a run returned.\<close>

fun succeeds :: "'a outcome \<Rightarrow> bool" where
  "succeeds (Ok x) = True"
| "succeeds _ = False"

text \<open>
  Two documents agree on a set of keys when they have the same entries under them. A
  rule is settled on a set of keys when, after a successful run of it, running it on any
  document that agrees with its result on these keys changes nothing.
\<close>

definition agree :: "string set \<Rightarrow> 'f doc \<Rightarrow> 'f doc \<Rightarrow> bool" where
  "agree R d' d = (\<forall>n \<in> R. map_of d' n = map_of d n)"

definition again :: "string set \<Rightarrow> ('f state \<Rightarrow> 'f state outcome) \<Rightarrow> bool" where
  "again R rule =
     (\<forall>s s' d' k'. rule s = Ok s' \<longrightarrow> agree R d' (fst s') \<longrightarrow> rule (d', k') = Ok (d', k'))"

text \<open>
  A value of \<open>loss_function\<close> is settled when the loss-function rule leaves it as it is:
  a non-empty mapping whose keys are all \<open>mse\<close> and whose \<open>mse\<close> entry has a
  \<open>reduction\<close>, or anything that is neither a mapping nor the scalar \<open>mse\<close>.
\<close>

definition filled :: "string \<Rightarrow> string \<Rightarrow> (string \<times> 'f yaml) list \<Rightarrow> bool" where
  "filled k sub m = (\<exists>e. map_of m k = Some e \<and> e \<noteq> YNone \<and> contains sub e = Ok True)"

definition settled_loss :: "'f yaml \<Rightarrow> bool" where
  "settled_loss L =
     (case L of
        YDict m \<Rightarrow> m \<noteq> [] \<and> (\<forall>p \<in> set m. fst p = ''mse'') \<and> filled ''mse'' ''reduction'' m
      | _ \<Rightarrow> L \<noteq> YStr ''mse'')"

text \<open>
  The rule list once more, cut at the rules that need a look of their own when the
  function runs on its own result.
\<close>

definition checks :: "'f platform \<Rightarrow> string \<Rightarrow> ('f state \<Rightarrow> 'f state outcome) list" where
  "checks P ev = [version_rule P ev, class_list_rule, dimension_rule P, patch_size_rule]"

definition rates :: "'f platform \<Rightarrow> ('f state \<Rightarrow> 'f state outcome) list" where
  "rates P = [epochs_rule P, batch_size_rule P, amp_rule P, learning_rate_rule P]"

definition middle :: "'f platform \<Rightarrow> ('f state \<Rightarrow> 'f state outcome) list" where
  "middle P = [data_preprocessing_rule P, base_filters_rule P, which_model_rule P, model_rule P,
      kcross_validation_rule, nested_training_rule P, scheduler_rule P, q_max_length_rule P,
      q_samples_per_volume_rule P, q_num_workers_rule P]"

text \<open>
  A list of rules, each with the keys it reads, is settled when each rule is settled on
  its keys and no later rule of the list writes them.
\<close>

fun settled :: "(string set \<times> ('f state \<Rightarrow> 'f state outcome)) list \<Rightarrow> bool" where
  "settled [] = True"
| "settled (p # rest) =
     (again (fst p) (snd p) \<and> (\<forall>n \<in> fst p. list_all (preserves n) (map snd rest)) \<and>
      settled rest)"

text \<open>
  The sample document with a \<open>resize\<close> of its own, and what the function returns for it.
\<close>

definition resized :: "rat doc" where
  "resized = minimal @ [(''resize'', YList [YInt 128, YInt 128])]"

definition resized_normalized :: "rat doc" where
  "resized_normalized = resized @ [(''psize'', YList [YInt 64, YInt 64])] @ tl defaults"

section \<open>Basic facts\<close>

subsection \<open>Sequencing\<close>

lemma then_do_Ok: "then_do m f = Ok y \<longleftrightarrow> (\<exists>x. m = Ok x \<and> f x = Ok y)"
  by (cases m) auto

lemma then_do_Fatal: "then_do m f = Fatal e \<longleftrightarrow> m = Fatal e \<or> (\<exists>x. m = Ok x \<and> f x = Fatal e)"
  by (cases m) auto

lemma then_do_Raise: "then_do m f = Raise e \<longleftrightarrow> m = Raise e \<or> (\<exists>x. m = Ok x \<and> f x = Raise e)"
  by (cases m) auto

lemma run_append: "run (xs @ ys) s = then_do (run xs s) (run ys)"
proof (induction xs arbitrary: s)
  case Nil
  show ?case by simp
next
  case (Cons r xs)
  show ?case by (cases "r s") (simp_all add: Cons.IH)
qed

lemma run_Fatal: "run rs s = Fatal m \<Longrightarrow> \<exists>r \<in> set rs. \<exists>s'. r s' = Fatal m"
proof (induction rs arbitrary: s)
  case Nil
  then show ?case by simp
next
  case (Cons r rs)
  then show ?case by (cases "r s") (auto simp: then_do_Fatal)
qed

lemma run_preserves: "list_all (preserves name) rs \<Longrightarrow> preserves name (run rs)"
proof (induction rs)
  case Nil
  show ?case by (simp add: preserves_def)
next
  case (Cons r rs)
  then have r: "preserves name r" and rs: "preserves name (run rs)" by simp_all
  show ?case unfolding preserves_def
  proof (intro allI impI)
    fix s s' assume "run (r # rs) s = Ok s'"
    then obtain s1 where "r s = Ok s1" and "run rs s1 = Ok s'" by (auto simp: then_do_Ok)
    then show "map_of (fst s') name = map_of (fst s) name"
      using r rs unfolding preserves_def by metis
  qed
qed

lemma run_keeps_key: "list_all keeps_key rs \<Longrightarrow> keeps_key (run rs)"
proof (induction rs)
  case Nil
  show ?case by (simp add: keeps_key_def)
next
  case (Cons r rs)
  then have r: "keeps_key r" and rs: "keeps_key (run rs)" by simp_all
  show ?case unfolding keeps_key_def
  proof (intro allI impI)
    fix s s' assume "run (r # rs) s = Ok s'"
    then obtain s1 where "r s = Ok s1" and "run rs s1 = Ok s'" by (auto simp: then_do_Ok)
    then show "snd s' = snd s"
      using r rs unfolding keeps_key_def by metis
  qed
qed

subsection \<open>Built-ins never exit\<close>

lemma lookup_not_Fatal [simp]: "lookup d name \<noteq> Fatal m"
  by (simp add: lookup_def split: option.splits)

lemma raised_not_Fatal [simp]: "raised r \<noteq> Fatal m"
  by (cases r) auto

lemma getitem_not_Fatal [simp]: "getitem v k \<noteq> Fatal m"
  by (cases "(v, k)" rule: getitem.cases) (auto split: option.splits)

lemma setitem_not_Fatal [simp]: "setitem v k x \<noteq> Fatal m"
  by (cases "(v, k, x)" rule: setitem.cases) (auto split: option.splits)

lemma contains_not_Fatal [simp]: "contains s v \<noteq> Fatal m"
  by (cases v) auto

lemma py_len_not_Fatal [simp]: "py_len v \<noteq> Fatal m"
  by (cases v) auto

lemma py_iter_not_Fatal [simp]: "py_iter v \<noteq> Fatal m"
  by (cases v) auto

lemma py_int_not_Fatal [simp]: "py_int P v \<noteq> Fatal m"
  by (cases v) (auto split: option.splits)

lemma py_float_not_Fatal [simp]: "py_float P v \<noteq> Fatal m"
  by (cases v) auto

lemma parse_version_not_Fatal [simp]: "parse_version P v \<noteq> Fatal m"
  by (cases v) (auto split: option.splits)

lemma replace_quotes_not_Fatal [simp]: "replace_quotes v \<noteq> Fatal m"
  by (cases v) auto

lemma ge_all_not_Fatal [simp]: "ge_all xs ys \<noteq> Fatal m"
  by (simp add: ge_all_def)

lemma greater_equal_all_not_Fatal [simp]: "greater_equal_all P a b \<noteq> Fatal m"
  by (simp add: greater_equal_all_def split: option.splits)

lemma store2_not_Fatal [simp]: "store2 d name k x \<noteq> Fatal m"
  by (simp add: store2_def then_do_Fatal)

lemma store3_not_Fatal [simp]: "store3 d name k sub x \<noteq> Fatal m"
  by (simp add: store3_def then_do_Fatal)

lemma to_int_not_Fatal [simp]: "to_int P v \<noteq> Fatal m"
  by (simp add: to_int_def then_do_Fatal)

lemma to_float_not_Fatal [simp]: "to_float P v \<noteq> Fatal m"
  by (simp add: to_float_def then_do_Fatal)

lemma to_bool_not_Fatal [simp]: "to_bool P v \<noteq> Fatal m"
  by (simp add: to_bool_def)

lemma py_str_not_Fatal [simp]: "py_str P v \<noteq> Fatal m"
  by (cases v) auto

lemma to_str_not_Fatal [simp]: "to_str P v \<noteq> Fatal m"
  by (simp add: to_str_def then_do_Fatal)

subsection \<open>Stores\<close>

lemma store2_other: "store2 d name k x = Ok d' \<Longrightarrow> n \<noteq> name \<Longrightarrow> map_of d' n = map_of d n"
  by (auto simp: store2_def then_do_Ok update_conv')

lemma store3_other: "store3 d name k sub x = Ok d' \<Longrightarrow> n \<noteq> name \<Longrightarrow> map_of d' n = map_of d n"
  by (auto simp: store3_def then_do_Ok update_conv')

subsection \<open>What each rule writes\<close>

lemma default_rule_preserves: "n \<noteq> name \<Longrightarrow> preserves n (default_rule name convert dflt)"
  by (auto simp: preserves_def default_rule_def then_do_Ok update_conv')

lemma default_rule_keeps_key: "keeps_key (default_rule name convert dflt)"
  by (auto simp: keeps_key_def default_rule_def then_do_Ok)

lemma default_rule_not_Fatal:
  "(\<And>v e. convert v \<noteq> Fatal e) \<Longrightarrow> default_rule name convert dflt s \<noteq> Fatal m"
  by (auto simp: default_rule_def then_do_Fatal)

lemma version_rule_same: "version_rule P ev s = Ok s' \<Longrightarrow> s' = s"
  by (auto simp: version_rule_def then_do_Ok split: if_splits)

lemma class_list_rule_same: "class_list_rule s = Ok s' \<Longrightarrow> s' = s"
  by (auto simp: class_list_rule_def split: if_splits)

lemma dimension_rule_same: "dimension_rule P s = Ok s' \<Longrightarrow> s' = s"
  by (auto simp: dimension_rule_def then_do_Ok split: if_splits)

lemma model_rule_same: "model_rule P s = Ok s' \<Longrightarrow> s' = s"
  by (auto simp: model_rule_def then_do_Ok split: if_splits)

lemma kcross_validation_rule_same: "kcross_validation_rule s = Ok s' \<Longrightarrow> s' = s"
  by (auto simp: kcross_validation_rule_def split: if_splits)

lemma nested_training_rule_same: "nested_training_rule P s = Ok s' \<Longrightarrow> s' = s"
  by (auto simp: nested_training_rule_def then_do_Ok split: if_splits)

lemma data_preprocessing_rule_same: "data_preprocessing_rule P s = Ok s' \<Longrightarrow> s' = s"
  by (auto simp: data_preprocessing_rule_def then_do_Ok)

lemma patch_size_rule_preserves: "n \<noteq> ''psize'' \<Longrightarrow> preserves n patch_size_rule"
  by (auto simp: preserves_def patch_size_rule_def then_do_Ok update_conv' split: if_splits)

lemma resize_rule_preserves: "n \<noteq> ''resize'' \<Longrightarrow> preserves n (resize_rule P)"
  by (auto simp: preserves_def resize_rule_def then_do_Ok update_conv' split: if_splits)

lemma epochs_rule_preserves:
  "n \<noteq> ''num_epochs'' \<Longrightarrow> n \<noteq> ''patience'' \<Longrightarrow> preserves n (epochs_rule P)"
  by (auto simp: preserves_def epochs_rule_def then_do_Ok update_conv' Let_def split: if_splits)

lemma fill_entry_other:
  assumes "fill_entry d name key sub x = Ok d'" and "n \<noteq> name"
  shows "map_of d' n = map_of d n"
proof -
  from assms(1) obtain fill where
    f: "(if fill then then_do (store2 d name key (YDict [])) (\<lambda>d1. store3 d1 name key sub x)
         else Ok d) = Ok d'"
    unfolding fill_entry_def then_do_Ok by blast
  show ?thesis
  proof (cases fill)
    case True
    with f obtain d1 where a: "store2 d name key (YDict []) = Ok d1"
      and b: "store3 d1 name key sub x = Ok d'" by (auto simp: then_do_Ok)
    show ?thesis using store2_other [OF a assms(2)] store3_other [OF b assms(2)] by simp
  next
    case False
    with f show ?thesis by simp
  qed
qed

lemma fill_entry_not_Fatal [simp]: "fill_entry d name key sub x \<noteq> Fatal m"
  by (simp add: fill_entry_def then_do_Fatal)

lemma loss_body_other:
  "loss_body key d = Ok d' \<Longrightarrow> n \<noteq> ''loss_function'' \<Longrightarrow> map_of d' n = map_of d n"
  by (auto simp: loss_body_def update_conv' split: if_splits dest: fill_entry_other)

lemma loss_loop_other:
  "loss_loop keys s = Ok s' \<Longrightarrow> n \<noteq> ''loss_function'' \<Longrightarrow> map_of (fst s') n = map_of (fst s) n"
proof (induction keys arbitrary: s)
  case Nil
  then show ?case by simp
next
  case (Cons key keys)
  from Cons.prems(1) obtain d where b: "loss_body key (fst s) = Ok d"
    and l: "loss_loop keys (d, Some key) = Ok s'" by (auto simp: then_do_Ok)
  from Cons.IH [OF l Cons.prems(2)] loss_body_other [OF b Cons.prems(2)] show ?case by simp
qed

lemma loss_given_other:
  assumes "loss_given lf s = Ok r" and "n \<noteq> ''loss_function''"
  shows "map_of (fst (fst r)) n = map_of (fst s) n"
proof (cases "is_dict lf")
  case False
  then show ?thesis using assms by (auto simp: loss_given_def update_conv' split: if_splits)
next
  case True
  with assms(1) obtain k :: nat where
    "(if k > 0 then then_do (py_iter lf) (\<lambda>keys. then_do (loss_loop keys s) (\<lambda>s1. Ok (s1, False)))
      else Ok (s, True)) = Ok r"
    unfolding loss_given_def by (auto simp: then_do_Ok)
  then show ?thesis
    using assms(2) by (auto simp: then_do_Ok split: if_splits dest: loss_loop_other)
qed

lemma loss_store_other:
  "loss_store r = Ok s' \<Longrightarrow> n \<noteq> ''loss_function'' \<Longrightarrow> map_of (fst s') n = map_of (fst (fst r)) n"
  by (auto simp: loss_store_def then_do_Ok update_conv')

lemma loss_function_rule_preserves:
  assumes "n \<noteq> ''loss_function''"
  shows "preserves n loss_function_rule"
  unfolding preserves_def
proof (intro allI impI)
  fix s s' :: "'a state"
  assume "loss_function_rule s = Ok s'"
  then obtain r where
    first: "(if has_key (fst s) ''loss_function''
             then then_do (lookup (fst s) ''loss_function'') (\<lambda>lf. loss_given lf s)
             else Ok (s, True)) = Ok r"
    and fin: "loss_store r = Ok s'"
    unfolding loss_function_rule_def then_do_Ok by blast
  from first have "map_of (fst (fst r)) n = map_of (fst s) n"
    using assms by (auto simp: then_do_Ok split: if_splits dest: loss_given_other)
  then show "map_of (fst s') n = map_of (fst s) n"
    using loss_store_other [OF fin assms] by simp
qed

lemma augmentation_body_other:
  "augmentation_body s = Ok s' \<Longrightarrow> n \<noteq> ''data_augmentation'' \<Longrightarrow>
     map_of (fst s') n = map_of (fst s) n"
  by (auto simp: augmentation_body_def then_do_Ok split: option.splits if_splits
           dest: fill_entry_other)

lemma data_augmentation_rule_preserves:
  "n \<noteq> ''data_augmentation'' \<Longrightarrow> preserves n data_augmentation_rule"
  by (auto simp: preserves_def data_augmentation_rule_def then_do_Ok split: if_splits
           dest: augmentation_body_other)

lemma which_model_rule_preserves: "n \<noteq> ''which_model'' \<Longrightarrow> preserves n (which_model_rule P)"
  by (auto simp: preserves_def which_model_rule_def then_do_Ok update_conv' split: if_splits)

lemma q_verbose_rule_preserves: "n \<noteq> ''q_verbose'' \<Longrightarrow> preserves n q_verbose_rule"
  by (auto simp: preserves_def q_verbose_rule_def then_do_Ok update_conv' split: if_splits)

lemma parallel_compute_command_rule_preserves:
  "n \<noteq> ''parallel_compute_command'' \<Longrightarrow> preserves n parallel_compute_command_rule"
  by (auto simp: preserves_def parallel_compute_command_rule_def then_do_Ok update_conv'
           split: if_splits)

lemma same_preserves: "(\<And>s s'. rule s = Ok s' \<Longrightarrow> s' = s) \<Longrightarrow> preserves n rule"
  by (auto simp: preserves_def)

lemma same_keeps_key: "(\<And>s s'. rule s = Ok s' \<Longrightarrow> s' = s) \<Longrightarrow> keeps_key rule"
  by (auto simp: keeps_key_def)

section \<open>The version comparator: facts\<close>



















subsection \<open>The messages a rule can exit with\<close>

lemma version_rule_Fatal:
  "version_rule P ev s = Fatal m \<Longrightarrow> m = version_missing \<or> m = version_incompatible ev"
  by (auto simp: version_rule_def then_do_Fatal simp del: parse_version.simps split: if_splits)

lemma class_list_rule_Fatal: "class_list_rule s = Fatal m \<Longrightarrow> m = class_list_missing"
  by (auto simp: class_list_rule_def split: if_splits)

lemma dimension_rule_Fatal: "dimension_rule P s = Fatal m \<Longrightarrow> m = dimension_missing"
  by (auto simp: dimension_rule_def then_do_Fatal split: if_splits)

lemma patch_size_rule_Fatal: "patch_size_rule s = Fatal m \<Longrightarrow> m = patch_size_missing"
  by (auto simp: patch_size_rule_def then_do_Fatal split: if_splits)

lemma resize_rule_Fatal: "resize_rule P s = Fatal m \<Longrightarrow> m = resize_too_small"
  by (auto simp: resize_rule_def then_do_Fatal split: if_splits)

lemma epochs_rule_not_Fatal [simp]: "epochs_rule P s \<noteq> Fatal m"
  by (auto simp: epochs_rule_def then_do_Fatal Let_def split: if_splits)

lemma batch_size_rule_not_Fatal [simp]: "batch_size_rule P s \<noteq> Fatal m"
  by (simp add: batch_size_rule_def default_rule_not_Fatal)

lemma amp_rule_not_Fatal [simp]: "amp_rule P s \<noteq> Fatal m"
  by (simp add: amp_rule_def default_rule_not_Fatal)

lemma learning_rate_rule_not_Fatal [simp]: "learning_rate_rule P s \<noteq> Fatal m"
  by (simp add: learning_rate_rule_def default_rule_not_Fatal)

lemma loss_body_not_Fatal [simp]: "loss_body key d \<noteq> Fatal m"
  by (simp add: loss_body_def)

lemma loss_loop_not_Fatal [simp]: "loss_loop keys s \<noteq> Fatal m"
  by (induction keys arbitrary: s) (auto simp: then_do_Fatal)

lemma loss_given_not_Fatal [simp]: "loss_given lf s \<noteq> Fatal m"
  by (auto simp: loss_given_def then_do_Fatal)

lemma loss_store_not_Fatal [simp]: "loss_store r \<noteq> Fatal m"
  by (auto simp: loss_store_def then_do_Fatal)

lemma loss_function_rule_not_Fatal [simp]: "loss_function_rule s \<noteq> Fatal m"
  by (auto simp: loss_function_rule_def then_do_Fatal)

lemma opt_rule_not_Fatal [simp]: "opt_rule P s \<noteq> Fatal m"
  by (simp add: opt_rule_def default_rule_not_Fatal)

lemma augmentation_body_not_Fatal [simp]: "augmentation_body s \<noteq> Fatal m"
  by (auto simp: augmentation_body_def then_do_Fatal split: option.splits)

lemma data_augmentation_rule_not_Fatal [simp]: "data_augmentation_rule s \<noteq> Fatal m"
  by (auto simp: data_augmentation_rule_def then_do_Fatal)

lemma data_preprocessing_rule_not_Fatal [simp]: "data_preprocessing_rule P s \<noteq> Fatal m"
  by (auto simp: data_preprocessing_rule_def then_do_Fatal)

lemma base_filters_rule_not_Fatal [simp]: "base_filters_rule P s \<noteq> Fatal m"
  by (simp add: base_filters_rule_def default_rule_not_Fatal)

lemma which_model_rule_not_Fatal [simp]: "which_model_rule P s \<noteq> Fatal m"
  by (auto simp: which_model_rule_def then_do_Fatal)

lemma model_rule_Fatal:
  "model_rule P s = Fatal m \<Longrightarrow>
     m \<in> {model_not_dict, model_empty, model_no_architecture, model_no_final_layer}"
  by (auto simp: model_rule_def then_do_Fatal split: if_splits)

lemma kcross_validation_rule_Fatal: "kcross_validation_rule s = Fatal m \<Longrightarrow> m = kcross_retired"
  by (auto simp: kcross_validation_rule_def split: if_splits)

lemma nested_training_rule_Fatal:
  "nested_training_rule P s = Fatal m \<Longrightarrow> m = nested_training_missing"
  by (auto simp: nested_training_rule_def default_folds_def then_do_Fatal split: if_splits)

lemma scheduler_rule_not_Fatal [simp]: "scheduler_rule P s \<noteq> Fatal m"
  by (simp add: scheduler_rule_def default_rule_not_Fatal)

lemma q_max_length_rule_not_Fatal [simp]: "q_max_length_rule P s \<noteq> Fatal m"
  by (simp add: q_max_length_rule_def default_rule_not_Fatal)

lemma q_samples_per_volume_rule_not_Fatal [simp]: "q_samples_per_volume_rule P s \<noteq> Fatal m"
  by (simp add: q_samples_per_volume_rule_def default_rule_not_Fatal)

lemma q_num_workers_rule_not_Fatal [simp]: "q_num_workers_rule P s \<noteq> Fatal m"
  by (simp add: q_num_workers_rule_def default_rule_not_Fatal)

lemma q_verbose_rule_not_Fatal [simp]: "q_verbose_rule s \<noteq> Fatal m"
  by (auto simp: q_verbose_rule_def then_do_Fatal)

lemma parallel_compute_command_rule_not_Fatal [simp]:
  "parallel_compute_command_rule s \<noteq> Fatal m"
  by (auto simp: parallel_compute_command_rule_def then_do_Fatal)

lemma later_rules_Fatal:
  assumes "run (tl (rules P ev)) s = Fatal m"
  shows "m \<in> {class_list_missing, dimension_missing, patch_size_missing, resize_too_small,
               model_not_dict, model_empty, model_no_architecture, model_no_final_layer,
               kcross_retired, nested_training_missing}"
proof -
  from run_Fatal [OF assms] obtain r s' where "r \<in> set (tl (rules P ev))" and "r s' = Fatal m"
    by blast
  then show ?thesis
    by (auto simp: rules_def dest: class_list_rule_Fatal dimension_rule_Fatal
          patch_size_rule_Fatal resize_rule_Fatal model_rule_Fatal kcross_validation_rule_Fatal
          nested_training_rule_Fatal)
qed

lemma incompatible_distinct:
  "version_incompatible ev \<notin> {class_list_missing, dimension_missing, patch_size_missing,
      resize_too_small, model_not_dict, model_empty, model_no_architecture,
      model_no_final_layer, kcross_retired, nested_training_missing}"
  by (simp add: version_incompatible_def class_list_missing_def dimension_missing_def
        patch_size_missing_def resize_too_small_def model_not_dict_def model_empty_def
        model_no_architecture_def model_no_final_layer_def kcross_retired_def
        nested_training_missing_def)

lemma parseConfig_unfold:
  "parseConfig P ev d =
     then_do (then_do (version_rule P ev (d, None)) (run (tl (rules P ev)))) (\<lambda>s. Ok (fst s))"
  by (simp add: parseConfig_def rules_def)

section \<open>The version gate\<close>

text \<open>
  Claim C1. Take a document with a \<open>version\<close> field that has the sub-fields \<open>minimum\<close>
  and \<open>maximum\<close>, and let the version comparator give the keys \<open>g\<close> for the engine and
  \<open>mn\<close>, \<open>mx\<close> for the two sub-fields. Then \<open>parseConfig\<close> exits with the message of an
  incompatible version exactly when \<open>g < mn\<close> or \<open>mx < g\<close>. Otherwise, and so when \<open>g\<close>
  equals \<open>mn\<close> or \<open>mx\<close>, the version rule passes with the state unchanged and
  \<open>parseConfig\<close> goes on with the rules after it.
\<close>

theorem version_gate:
  assumes "map_of d ''version'' = Some v"
    and "getitem v (YStr ''minimum'') = Ok lo" and "getitem v (YStr ''maximum'') = Ok hi"
    and "parse_version P (YStr ev) = Ok g"
    and "parse_version P lo = Ok mn" and "parse_version P hi = Ok mx"
  shows "(parseConfig P ev d = Fatal (version_incompatible ev) \<longleftrightarrow> g < mn \<or> mx < g) \<and>
         (mn \<le> g \<and> g \<le> mx \<longrightarrow>
            version_rule P ev (d, None) = Ok (d, None) \<and>
            parseConfig P ev d = then_do (run (tl (rules P ev)) (d, None)) (\<lambda>s. Ok (fst s)))"
proof -
  have gate: "version_rule P ev (d, None) =
                (if g < mn \<or> mx < g then Fatal (version_incompatible ev) else Ok (d, None))"
    using assms by (simp add: version_rule_def has_key_def lookup_def)
  show ?thesis
  proof (cases "g < mn \<or> mx < g")
    case True
    then show ?thesis using gate by (auto simp: parseConfig_unfold)
  next
    case False
    then have pass: "version_rule P ev (d, None) = Ok (d, None)" using gate by simp
    then have eq: "parseConfig P ev d = then_do (run (tl (rules P ev)) (d, None)) (\<lambda>s. Ok (fst s))"
      by (simp add: parseConfig_unfold)
    have "parseConfig P ev d \<noteq> Fatal (version_incompatible ev)"
    proof
      assume "parseConfig P ev d = Fatal (version_incompatible ev)"
      then have "run (tl (rules P ev)) (d, None) = Fatal (version_incompatible ev)"
        unfolding eq by (auto simp: then_do_Fatal)
      from later_rules_Fatal [OF this] incompatible_distinct show False by blast
    qed
    then show ?thesis using False pass eq by auto
  qed
qed

theorem version_gate_witness:
  "version_rule ideal ''0.0.8'' (minimal, None) = Ok (minimal, None) \<and>
   parseConfig ideal ''0.0.8'' minimal \<noteq> Fatal (version_incompatible ''0.0.8'') \<and>
   parseConfig ideal ''0.0.9'' minimal = Fatal (version_incompatible ''0.0.9'')"
proof -
  let ?v = "YDict [(''minimum'', YStr ''0.0.8''), (''maximum'', YStr ''0.0.8'')] :: rat yaml"
  have v: "map_of minimal ''version'' = Some ?v" by (simp add: minimal_def)
  have lo: "getitem ?v (YStr ''minimum'') = Ok (YStr ''0.0.8'')"
    and hi: "getitem ?v (YStr ''maximum'') = Ok (YStr ''0.0.8'')" by (simp_all add: lookup_def)
  have p8: "parse_version ideal (YStr ''0.0.8'') = Ok 8"
    and p9: "parse_version ideal (YStr ''0.0.9'') = Ok 9" by code_simp+
  have inside: "(8::int) \<le> 8 \<and> (8::int) \<le> 8" and "\<not> ((8::int) < 8 \<or> (8::int) < 8)"
    and outside: "(9::int) < 8 \<or> (8::int) < 9" by simp_all
  with version_gate [OF v lo hi p8 p8 p8] version_gate [OF v lo hi p9 p8 p8]
  show ?thesis by blast
qed

section \<open>Augmentation and pre-processing are looked up unguarded\<close>

lemma succeeds_Ok: "succeeds r \<Longrightarrow> \<exists>x. r = Ok x"
  by (cases r) auto

lemma run_middle:
  "run pre s = Ok s1 \<Longrightarrow> run (pre @ rule # post) s = then_do (rule s1) (run post)"
  by (simp add: run_append)

lemma data_augmentation_rule_missing:
  "\<not> has_key (fst s) ''data_augmentation'' \<Longrightarrow> data_augmentation_rule s = Raise KeyError"
  by (simp add: data_augmentation_rule_def lookup_def has_key_def)

lemma data_preprocessing_rule_missing:
  "\<not> has_key (fst s) ''data_preprocessing'' \<Longrightarrow> data_preprocessing_rule P s = Raise KeyError"
  by (simp add: data_preprocessing_rule_def lookup_def has_key_def)

lemma run_stops:
  assumes "\<And>s1. run pre s = Ok s1 \<Longrightarrow> \<exists>e. rule s1 = Raise e"
  shows "run (pre @ rule # post) s \<noteq> Ok s'"
    and "run (pre @ rule # post) s = Fatal m \<Longrightarrow> run pre s = Fatal m"
proof -
  show "run (pre @ rule # post) s \<noteq> Ok s'"
  proof
    assume "run (pre @ rule # post) s = Ok s'"
    then obtain s1 s2 where "run pre s = Ok s1" and "rule s1 = Ok s2"
      by (auto simp: run_append then_do_Ok)
    with assms show False by fastforce
  qed
  show "run pre s = Fatal m" if "run (pre @ rule # post) s = Fatal m"
  proof (cases "run pre s")
    case (Ok s1)
    with assms obtain e where "rule s1 = Raise e" by blast
    with that Ok show ?thesis by (simp add: run_append)
  next
    case (Fatal x)
    with that show ?thesis by (simp add: run_append)
  next
    case (Raise e)
    with that show ?thesis by (simp add: run_append)
  qed
qed

lemma rules_augmentation:
  "rules P ev = (admission P ev @ training P) @ data_augmentation_rule #
     (data_preprocessing_rule P # finishing P)"
  by (simp add: rules_def admission_def training_def finishing_def)

lemma rules_preprocessing:
  "rules P ev = (admission P ev @ training P @ [data_augmentation_rule]) @
     data_preprocessing_rule P # finishing P"
  by (simp add: rules_def admission_def training_def finishing_def)

lemma admission_take: "admission P ev = take 5 (rules P ev)"
  by (simp add: rules_def admission_def)

lemma admission_preserves:
  "n \<noteq> ''psize'' \<Longrightarrow> n \<noteq> ''resize'' \<Longrightarrow> list_all (preserves n) (admission P ev)"
  by (simp add: admission_def patch_size_rule_preserves resize_rule_preserves
        same_preserves [OF version_rule_same] same_preserves [OF class_list_rule_same]
        same_preserves [OF dimension_rule_same])

lemma training_preserves:
  "n \<notin> {''num_epochs'', ''patience'', ''batch_size'', ''amp'', ''learning_rate'',
          ''loss_function'', ''opt''} \<Longrightarrow> list_all (preserves n) (training P)"
  by (simp add: training_def epochs_rule_preserves batch_size_rule_def amp_rule_def
        learning_rate_rule_def opt_rule_def default_rule_preserves loss_function_rule_preserves)

lemma training_not_Fatal: "run (training P) s \<noteq> Fatal m"
proof
  assume "run (training P) s = Fatal m"
  from run_Fatal [OF this] show False by (auto simp: training_def)
qed

lemma admission_Fatal:
  assumes "run (admission P ev) s = Fatal m"
  shows "m \<in> {version_missing, version_incompatible ev, class_list_missing, dimension_missing,
               patch_size_missing, resize_too_small}"
proof -
  from run_Fatal [OF assms] obtain r s' where "r \<in> set (admission P ev)" and "r s' = Fatal m"
    by blast
  then show ?thesis
    by (auto simp: admission_def dest: version_rule_Fatal class_list_rule_Fatal
          dimension_rule_Fatal patch_size_rule_Fatal resize_rule_Fatal)
qed

lemma before_augmentation_Fatal:
  assumes "run (admission P ev @ training P @ rest) s = Fatal m"
    and "\<And>s1. run rest s1 \<noteq> Fatal m"
  shows "run (admission P ev) s = Fatal m"
proof -
  from assms(1) have "run (admission P ev) s = Fatal m \<or>
      (\<exists>s1. run (admission P ev) s = Ok s1 \<and> run (training P @ rest) s1 = Fatal m)"
    by (simp add: run_append then_do_Fatal)
  moreover have "run (training P @ rest) s1 \<noteq> Fatal m" for s1
    using training_not_Fatal [of P s1 m] assms(2) by (simp add: run_append then_do_Fatal)
  ultimately show ?thesis by blast
qed

lemma take_rules_augmentation:
  "take 11 (rules P ev) = admission P ev @ training P"
  "take 12 (rules P ev) = admission P ev @ training P @ [data_augmentation_rule]"
  by (simp_all add: rules_def admission_def training_def)

text \<open>
  Claim C10, as the source has it. When \<open>data_augmentation\<close> or \<open>data_preprocessing\<close> is
  missing, \<open>parseConfig\<close> returns no configuration. It exits with a message only when one
  of the first five rules (version, \<open>class_list\<close>, \<open>dimension\<close>, \<open>patch_size\<close>, \<open>resize\<close>)
  does, with that rule's message; when these five rules pass, it ends with an exception.
  The exception is the \<open>KeyError\<close> of the lookup of the missing key when the run gets as
  far as that lookup: for \<open>data_augmentation\<close> when the eleven rules before its rule
  pass, for \<open>data_preprocessing\<close> when the twelve rules before its rule pass.
\<close>

theorem augmentation_and_preprocessing_mandatory:
  assumes "\<not> has_key d ''data_augmentation'' \<or> \<not> has_key d ''data_preprocessing''"
  shows "(\<forall>out. parseConfig P ev d \<noteq> Ok out) \<and>
         (\<forall>m. parseConfig P ev d = Fatal m \<longrightarrow>
            run (take 5 (rules P ev)) (d, None) = Fatal m \<and>
            m \<in> {version_missing, version_incompatible ev, class_list_missing,
                  dimension_missing, patch_size_missing, resize_too_small}) \<and>
         (\<forall>s. run (take 5 (rules P ev)) (d, None) = Ok s \<longrightarrow>
            (\<exists>e. parseConfig P ev d = Raise e)) \<and>
         (\<forall>s. \<not> has_key d ''data_augmentation'' \<longrightarrow>
            run (take 11 (rules P ev)) (d, None) = Ok s \<longrightarrow>
            parseConfig P ev d = Raise KeyError) \<and>
         (\<forall>s. has_key d ''data_augmentation'' \<longrightarrow>
            run (take 12 (rules P ev)) (d, None) = Ok s \<longrightarrow>
            parseConfig P ev d = Raise KeyError)"
proof -
  let ?pre = "admission P ev @ training P"
  let ?pre' = "admission P ev @ training P @ [data_augmentation_rule]"
  have raise: "data_augmentation_rule s1 = Raise KeyError"
    if "\<not> has_key d ''data_augmentation''" and "run ?pre (d, None) = Ok s1" for s1
  proof -
    have "list_all (preserves ''data_augmentation'') ?pre"
      by (simp add: admission_preserves training_preserves)
    from run_preserves [OF this] that(2)
    have "map_of (fst s1) ''data_augmentation'' = map_of d ''data_augmentation''"
      unfolding preserves_def by fastforce
    with that(1) have "\<not> has_key (fst s1) ''data_augmentation''" by (simp add: has_key_def)
    then show ?thesis by (simp add: data_augmentation_rule_missing)
  qed
  have raise': "data_preprocessing_rule P s1 = Raise KeyError"
    if "\<not> has_key d ''data_preprocessing''" and "run ?pre' (d, None) = Ok s1" for s1
  proof -
    have "list_all (preserves ''data_preprocessing'') ?pre'"
      by (simp add: admission_preserves training_preserves data_augmentation_rule_preserves)
    from run_preserves [OF this] that(2)
    have "map_of (fst s1) ''data_preprocessing'' = map_of d ''data_preprocessing''"
      unfolding preserves_def by fastforce
    with that(1) have "\<not> has_key (fst s1) ''data_preprocessing''" by (simp add: has_key_def)
    then show ?thesis by (simp add: data_preprocessing_rule_missing)
  qed
  have stop: "(\<forall>s'. run (rules P ev) (d, None) \<noteq> Ok s') \<and>
              (\<forall>m. run (rules P ev) (d, None) = Fatal m \<longrightarrow> run (admission P ev) (d, None) = Fatal m)"
  proof (cases "has_key d ''data_augmentation''")
    case False
    have ex: "\<exists>e. data_augmentation_rule s1 = Raise e" if "run ?pre (d, None) = Ok s1" for s1
      using raise [OF False that] by blast
    have a: "run (rules P ev) (d, None) \<noteq> Ok s'" for s'
      unfolding rules_augmentation by (rule run_stops(1) [OF ex])
    have b: "run (admission P ev) (d, None) = Fatal m" if "run (rules P ev) (d, None) = Fatal m" for m
    proof -
      from that have "run ((admission P ev @ training P) @ data_augmentation_rule #
            (data_preprocessing_rule P # finishing P)) (d, None) = Fatal m"
        by (simp only: rules_augmentation)
      then have "run ?pre (d, None) = Fatal m"
        using ex by (rule run_stops(2) [rotated])
      then have "run (admission P ev @ training P @ []) (d, None) = Fatal m" by simp
      then show ?thesis by (rule before_augmentation_Fatal) simp
    qed
    from a b show ?thesis by blast
  next
    case True
    with assms have miss: "\<not> has_key d ''data_preprocessing''" by simp
    have ex: "\<exists>e. data_preprocessing_rule P s1 = Raise e" if "run ?pre' (d, None) = Ok s1" for s1
      using raise' [OF miss that] by blast
    have a: "run (rules P ev) (d, None) \<noteq> Ok s'" for s'
      unfolding rules_preprocessing by (rule run_stops(1) [OF ex])
    have b: "run (admission P ev) (d, None) = Fatal m" if "run (rules P ev) (d, None) = Fatal m" for m
    proof -
      from that have "run ((admission P ev @ training P @ [data_augmentation_rule]) @
            data_preprocessing_rule P # finishing P) (d, None) = Fatal m"
        by (simp only: rules_preprocessing)
      then have "run ?pre' (d, None) = Fatal m"
        using ex by (rule run_stops(2) [rotated])
      then show ?thesis by (rule before_augmentation_Fatal) (simp add: then_do_Fatal)
    qed
    from a b show ?thesis by blast
  qed
  have ok: "parseConfig P ev d \<noteq> Ok out" for out
    using stop by (auto simp: parseConfig_def then_do_Ok)
  have fatal: "run (admission P ev) (d, None) = Fatal m" if "parseConfig P ev d = Fatal m" for m
    using stop that by (auto simp: parseConfig_def then_do_Fatal)
  have msgs: "m \<in> {version_missing, version_incompatible ev, class_list_missing,
                  dimension_missing, patch_size_missing, resize_too_small}"
    if "parseConfig P ev d = Fatal m" for m
    using fatal [OF that] by (rule admission_Fatal)
  have exn: "\<exists>e. parseConfig P ev d = Raise e" if "run (admission P ev) (d, None) = Ok s" for s
  proof (cases "parseConfig P ev d")
    case (Ok out)
    with ok show ?thesis by blast
  next
    case (Fatal m)
    from fatal [OF this] that show ?thesis by simp
  next
    case (Raise e)
    then show ?thesis by blast
  qed
  have da: "parseConfig P ev d = Raise KeyError"
    if "\<not> has_key d ''data_augmentation''" and "run ?pre (d, None) = Ok s" for s
  proof -
    have "run (?pre @ data_augmentation_rule # (data_preprocessing_rule P # finishing P)) (d, None)
        = Raise KeyError"
      by (simp only: run_middle [OF that(2)] raise [OF that] then_do.simps)
    then show ?thesis by (simp only: parseConfig_def rules_augmentation then_do.simps)
  qed
  have dp: "parseConfig P ev d = Raise KeyError"
    if "has_key d ''data_augmentation''" and "run ?pre' (d, None) = Ok s" for s
  proof -
    from that(1) assms have miss: "\<not> has_key d ''data_preprocessing''" by simp
    have "run (?pre' @ data_preprocessing_rule P # finishing P) (d, None) = Raise KeyError"
      by (simp only: run_middle [OF that(2)] raise' [OF miss that(2)] then_do.simps)
    then show ?thesis by (simp only: parseConfig_def rules_preprocessing then_do.simps)
  qed
  from ok fatal msgs exn da dp show ?thesis
    unfolding admission_take take_rules_augmentation by blast
qed

theorem augmentation_and_preprocessing_mandatory_witness:
  "parseConfig ideal ''0.0.8'' (AList.delete ''data_augmentation'' minimal) = Raise KeyError \<and>
   parseConfig ideal ''0.0.8'' (AList.delete ''data_preprocessing'' minimal) = Raise KeyError \<and>
   parseConfig ideal ''0.0.8''
     (AList.update ''num_epochs'' (YStr ''abc'') (AList.delete ''data_augmentation'' minimal))
     \<noteq> Fatal version_missing"
proof -
  let ?a = "AList.delete ''data_augmentation'' minimal"
  let ?p = "AList.delete ''data_preprocessing'' minimal"
  let ?e = "AList.update ''num_epochs'' (YStr ''abc'') (AList.delete ''data_augmentation'' minimal)"
  have a: "\<not> has_key ?a ''data_augmentation''"
    and p: "has_key ?p ''data_augmentation''" "\<not> has_key ?p ''data_preprocessing''"
    and e: "\<not> has_key ?e ''data_augmentation''"
    by (simp_all add: has_key_def minimal_def)
  have "succeeds (run (take 11 (rules ideal ''0.0.8'')) (?a, None))" by code_simp
  then obtain s1 where 1: "run (take 11 (rules ideal ''0.0.8'')) (?a, None) = Ok s1"
    by (blast dest: succeeds_Ok)
  have "succeeds (run (take 12 (rules ideal ''0.0.8'')) (?p, None))" by code_simp
  then obtain s2 where 2: "run (take 12 (rules ideal ''0.0.8'')) (?p, None) = Ok s2"
    by (blast dest: succeeds_Ok)
  have "succeeds (run (take 5 (rules ideal ''0.0.8'')) (?e, None))" by code_simp
  then obtain s3 where 3: "run (take 5 (rules ideal ''0.0.8'')) (?e, None) = Ok s3"
    by (blast dest: succeeds_Ok)
  from augmentation_and_preprocessing_mandatory [of ?a ideal "''0.0.8''"] a 1
  have "parseConfig ideal ''0.0.8'' ?a = Raise KeyError" by blast
  moreover from augmentation_and_preprocessing_mandatory [of ?p ideal "''0.0.8''"] p 2
  have "parseConfig ideal ''0.0.8'' ?p = Raise KeyError" by blast
  moreover from augmentation_and_preprocessing_mandatory [of ?e ideal "''0.0.8''"] e 3
  have "\<exists>x. parseConfig ideal ''0.0.8'' ?e = Raise x" by blast
  then have "parseConfig ideal ''0.0.8'' ?e \<noteq> Fatal version_missing" by auto
  ultimately show ?thesis by blast
qed

text \<open>
  The exception is another one when an earlier statement raises: the sample document
  without \<open>data_augmentation\<close> and with a \<open>num_epochs\<close> that is no number ends with the
  \<open>ValueError\<close> of line 55, and the sample document with a non-empty \<open>data_augmentation\<close>
  and without \<open>data_preprocessing\<close> ends with the \<open>UnboundLocalError\<close> of line 128.
\<close>

lemma earlier_exceptions:
  "parseConfig ideal ''0.0.8''
     (AList.update ''num_epochs'' (YStr ''abc'') (AList.delete ''data_augmentation'' minimal))
     = Raise ValueError"
  "parseConfig ideal ''0.0.8''
     (AList.update ''data_augmentation'' (YDict [(''flip'', YNone)])
        (AList.delete ''data_preprocessing'' minimal))
     = Raise UnboundLocalError"
  by code_simp+

text \<open>
  Claim C10 as stated speaks of every document without one of the keys. A document that
  also lacks \<open>class_list\<close> leaves through the fatal exit of that rule.
\<close>

theorem no_augmentation_no_class_list:
  "\<not> has_key (AList.delete ''class_list'' (AList.delete ''data_augmentation'' minimal)) ''data_augmentation'' \<and>
   parseConfig ideal ''0.0.8'' (AList.delete ''class_list'' (AList.delete ''data_augmentation'' minimal))
     = Fatal class_list_missing"
  by code_simp

section \<open>Inputs on which the function departs from its documentation\<close>

text \<open>
  Claim C9. Of the five required fields, four are tested for presence: without
  \<open>version\<close>, \<open>class_list\<close>, \<open>patch_size\<close> or \<open>model\<close> the sample document leaves through
  the exit of that field, with a message that names it. The sample document without
  \<open>dimension\<close> does not reach the message the source has for it: the test
  \<^verbatim>\<open>if not params['dimension']\<close> raises \<open>KeyError\<close>.
\<close>

theorem missing_dimension_raises:
  "parseConfig ideal ''0.0.8'' (AList.delete ''version'' minimal) = Fatal version_missing \<and>
   parseConfig ideal ''0.0.8'' (AList.delete ''class_list'' minimal) = Fatal class_list_missing \<and>
   parseConfig ideal ''0.0.8'' (AList.delete ''patch_size'' minimal) = Fatal patch_size_missing \<and>
   parseConfig ideal ''0.0.8'' (AList.delete ''model'' minimal) = Fatal model_not_dict \<and>
   substring ''version'' version_missing \<and> substring ''class_list'' class_list_missing \<and>
   substring ''patch_size'' patch_size_missing \<and> substring ''model'' model_not_dict \<and>
   parseConfig ideal ''0.0.8'' (AList.delete ''dimension'' minimal) = Raise KeyError"
  by code_simp

text \<open>
  Claim C2. The guard of the pre-processing block is \<^verbatim>\<open>len(...) < 0\<close>, so the block never
  runs: a document with both \<open>threshold\<close> and \<open>clip\<close> is accepted and returned as it
  was, and a lone \<open>threshold\<close> that is null stays null.
\<close>

theorem threshold_and_clip_accepted:
  "parseConfig ideal ''0.0.8''
     (AList.update ''data_preprocessing''
        (YDict [(''threshold'', YDict [(''min'', YInt 10)]), (''clip'', YDict [(''max'', YInt 200)])])
        minimal)
   = Ok (AList.update ''data_preprocessing''
        (YDict [(''threshold'', YDict [(''min'', YInt 10)]), (''clip'', YDict [(''max'', YInt 200)])])
        minimal_normalized) \<and>
   parseConfig ideal ''0.0.8''
     (AList.update ''data_preprocessing'' (YDict [(''threshold'', YNone)]) minimal)
   = Ok (AList.update ''data_preprocessing'' (YDict [(''threshold'', YNone)]) minimal_normalized)"
  by code_simp

text \<open>
  Claim C5. A \<open>holdout\<close> of zero is returned as zero, not as the default of \<open>-10\<close> folds;
  without \<open>holdout\<close> the run raises \<open>KeyError\<close>.
\<close>

theorem falsy_holdout_kept:
  "parseConfig ideal ''0.0.8''
     (AList.update ''nested_training'' (YDict [(''holdout'', YInt 0), (''validation'', YInt 5)]) minimal)
   = Ok (AList.update ''nested_training'' (YDict [(''holdout'', YInt 0), (''validation'', YInt 5)])
          minimal_normalized) \<and>
   parseConfig ideal ''0.0.8''
     (AList.update ''nested_training'' (YDict [(''validation'', YInt 5)]) minimal)
   = Raise KeyError"
  by code_simp

text \<open>
  Claim C6. Only the augmentation named by the last key of the loss-function mapping
  gets its probability: with the loss function \<open>{flip: null}\<close>, \<open>flip\<close> is filled and
  \<open>rotate\<close> stays null. Without a loss-function mapping \<open>key\<close> is unbound and any
  non-empty \<open>data_augmentation\<close> ends the run with \<open>UnboundLocalError\<close>.
\<close>

theorem second_augmentation_untouched:
  "returned ''data_augmentation''
     (parseConfig ideal ''0.0.8''
        (AList.update ''loss_function'' (YDict [(''flip'', YNone)])
          (AList.update ''data_augmentation'' (YDict [(''flip'', YNone), (''rotate'', YNone)]) minimal)))
   = Ok (Some (YDict [(''flip'', YDict [(''probability'', YInt 1)]), (''rotate'', YNone)])) \<and>
   parseConfig ideal ''0.0.8''
     (AList.update ''data_augmentation'' (YDict [(''flip'', YNone)]) minimal)
   = Raise UnboundLocalError"
  by code_simp

section \<open>Following one key through the run\<close>

lemma lookup_update: "lookup (AList.update k v d) n = (if n = k then Ok v else lookup d n)"
  by (simp add: lookup_def update_conv')

lemma has_key_update: "has_key (AList.update k v d) n \<longleftrightarrow> n = k \<or> has_key d n"
  by (simp add: has_key_def update_conv')

lemma finishing_preserves:
  "n \<notin> {''base_filters'', ''which_model'', ''scheduler'', ''q_max_length'',
          ''q_samples_per_volume'', ''q_num_workers'', ''q_verbose'',
          ''parallel_compute_command''} \<Longrightarrow> list_all (preserves n) (finishing P)"
  by (simp add: finishing_def base_filters_rule_def scheduler_rule_def q_max_length_rule_def
        q_samples_per_volume_rule_def q_num_workers_rule_def default_rule_preserves
        which_model_rule_preserves q_verbose_rule_preserves
        parallel_compute_command_rule_preserves
        same_preserves [OF model_rule_same] same_preserves [OF kcross_validation_rule_same]
        same_preserves [OF nested_training_rule_same])


lemma parseConfig_Ok: "parseConfig P ev d = Ok out \<longleftrightarrow> (\<exists>k. run (rules P ev) (d, None) = Ok (out, k))"
  by (auto simp: parseConfig_def then_do_Ok)

section \<open>The loss function is normalized\<close>









section \<open>The resize rule\<close>

lemma resize_rule_absent:
  "map_of (fst s) ''resize'' = None \<Longrightarrow>
     resize_rule P s = Ok (AList.update ''resize'' YNone (fst s), snd s)"
  by (simp add: resize_rule_def has_key_def)

lemma resize_rule_present:
  "map_of (fst s) ''resize'' = Some r \<Longrightarrow> map_of (fst s) ''psize'' = Some p \<Longrightarrow>
     resize_rule P s =
       then_do (greater_equal_all P r p) (\<lambda>ok. if \<not> ok then Fatal resize_too_small else Ok s)"
  by (simp add: resize_rule_def has_key_def lookup_def)

lemma before_resize:
  assumes "run [version_rule P ev, class_list_rule, dimension_rule P, patch_size_rule] s = Ok s1"
  shows "\<exists>p. map_of (fst s) ''patch_size'' = Some p \<and>
             s1 = (AList.update ''psize'' p (fst s), snd s)"
proof -
  from assms obtain a b c where "version_rule P ev s = Ok a" and "class_list_rule a = Ok b"
    and "dimension_rule P b = Ok c" and p: "patch_size_rule c = Ok s1"
    by (auto simp: then_do_Ok)
  then have "c = s"
    using version_rule_same class_list_rule_same dimension_rule_same by blast
  with p show ?thesis
    by (auto simp: patch_size_rule_def has_key_def lookup_def split: if_splits option.splits)
qed

lemma rules_resize:
  "rules P ev =
     [version_rule P ev, class_list_rule, dimension_rule P, patch_size_rule] @ resize_rule P #
     (training P @ [data_augmentation_rule, data_preprocessing_rule P] @ finishing P)"
  by (simp add: rules_def training_def finishing_def)

lemma after_resize:
  "list_all (preserves ''resize'')
     (training P @ [data_augmentation_rule, data_preprocessing_rule P] @ finishing P)"
  by (simp add: training_preserves finishing_preserves data_augmentation_rule_preserves
        same_preserves [OF data_preprocessing_rule_same])

lemma take_rules:
  "take 4 (rules P ev) = [version_rule P ev, class_list_rule, dimension_rule P, patch_size_rule]"
  "take 5 (rules P ev) =
     [version_rule P ev, class_list_rule, dimension_rule P, patch_size_rule] @ [resize_rule P]"
  by (simp_all add: rules_def)

lemma greater_equal_all_ints:
  assumes "int_array r = Some xs" and "int_array p = Some ys" and "length xs = length ys"
  shows "greater_equal_all P r p = Ok (list_all2 (\<lambda>x y. x \<ge> y) xs ys)"
proof -
  from assms(1) have "r \<noteq> YNone" by auto
  then show ?thesis using assms by (simp add: greater_equal_all_def ge_all_def)
qed

lemma greater_equal_all_lengths:
  assumes "int_array r = Some xs" and "int_array p = Some ys" and "length xs \<noteq> length ys"
    and "length xs \<noteq> 1" and "length ys \<noteq> 1"
  shows "greater_equal_all P r p = Raise ValueError"
proof -
  from assms(1) have "r \<noteq> YNone" by auto
  then show ?thesis using assms by (simp add: greater_equal_all_def ge_all_def)
qed

lemma greater_equal_all_null:
  "int_array p = Some ys \<Longrightarrow> ys \<noteq> [] \<Longrightarrow> greater_equal_all P YNone p = Raise TypeError"
  by (simp add: greater_equal_all_def)

text \<open>
  Claim C4, as the source has it. A configuration that \<open>parseConfig\<close> returns has
  \<open>resize\<close> null when the document has no \<open>resize\<close>; when the document has one, it is
  returned unchanged and it is element-wise greater than or equal to \<open>patch_size\<close>. When
  the four rules before the resize rule pass and the document has a \<open>resize\<close>, the
  comparison of line 48 decides: when it answers no, \<open>parseConfig\<close> exits with the
  message of the resize rule; when it answers yes, the resize rule passes with the state
  unchanged; when it raises, \<open>parseConfig\<close> ends with that exception, not with the exit.
  For integer lists of one length the comparison is the position-wise one: \<open>[64, 64]\<close>
  against \<open>[128, 128]\<close> fails, \<open>[128, 128]\<close> against \<open>[64, 64]\<close> passes. For integer lists
  of two lengths, neither of them one, it raises \<open>ValueError\<close>, and for a \<open>resize\<close> of
  null against a patch size that has an element it raises \<open>TypeError\<close>.
\<close>

theorem resize_checked:
  "(parseConfig P ev d = Ok out \<longrightarrow>
      (map_of d ''resize'' = None \<longrightarrow> map_of out ''resize'' = Some YNone) \<and>
      (\<forall>r. map_of d ''resize'' = Some r \<longrightarrow>
         map_of out ''resize'' = Some r \<and>
         (\<exists>p. map_of d ''patch_size'' = Some p \<and> greater_equal_all P r p = Ok True))) \<and>
   (run (take 4 (rules P ev)) (d, None) = Ok s \<and>
    map_of d ''resize'' = Some r \<and> map_of d ''patch_size'' = Some p \<longrightarrow>
      (greater_equal_all P r p = Ok False \<longrightarrow> parseConfig P ev d = Fatal resize_too_small) \<and>
      (greater_equal_all P r p = Ok True \<longrightarrow> run (take 5 (rules P ev)) (d, None) = Ok s) \<and>
      (greater_equal_all P r p = Raise e \<longrightarrow> parseConfig P ev d = Raise e)) \<and>
   (int_array r = Some xs \<and> int_array p = Some ys \<and> length xs = length ys \<longrightarrow>
      greater_equal_all P r p = Ok (list_all2 (\<lambda>x y. x \<ge> y) xs ys)) \<and>
   (int_array r = Some xs \<and> int_array p = Some ys \<and> length xs \<noteq> length ys \<and>
    length xs \<noteq> 1 \<and> length ys \<noteq> 1 \<longrightarrow>
      greater_equal_all P r p = Raise ValueError) \<and>
   (int_array p = Some ys \<and> ys \<noteq> [] \<longrightarrow> greater_equal_all P YNone p = Raise TypeError) \<and>
   greater_equal_all P (YList [YInt 64, YInt 64]) (YList [YInt 128, YInt 128]) = Ok False \<and>
   greater_equal_all P (YList [YInt 128, YInt 128]) (YList [YInt 64, YInt 64]) = Ok True"
proof -
  let ?four = "[version_rule P ev, class_list_rule, dimension_rule P, patch_size_rule]"
  let ?rest = "training P @ [data_augmentation_rule, data_preprocessing_rule P] @ finishing P"
  have returned: "(map_of d ''resize'' = None \<longrightarrow> map_of out ''resize'' = Some YNone) \<and>
      (\<forall>r. map_of d ''resize'' = Some r \<longrightarrow>
         map_of out ''resize'' = Some r \<and>
         (\<exists>p. map_of d ''patch_size'' = Some p \<and> greater_equal_all P r p = Ok True))"
    if "parseConfig P ev d = Ok out"
  proof -
    from that obtain k where "run (?four @ resize_rule P # ?rest) (d, None) = Ok (out, k)"
      by (auto simp: parseConfig_Ok rules_resize)
    then obtain s1 s2 s3 where four: "run ?four (d, None) = Ok s1" and rule: "resize_rule P s1 = Ok s2"
      and rest: "run ?rest s2 = Ok s3" and s3: "s3 = (out, k)"
      by (auto simp: run_append then_do_Ok)
    from before_resize [OF four] obtain p where p: "map_of d ''patch_size'' = Some p"
      and s1: "s1 = (AList.update ''psize'' p d, None)" by auto
    from run_preserves [OF after_resize] rest s3
    have out: "map_of out ''resize'' = map_of (fst s2) ''resize''"
      unfolding preserves_def by fastforce
    have here: "map_of (fst s1) ''resize'' = map_of d ''resize''"
      and psize: "map_of (fst s1) ''psize'' = Some p"
      by (simp_all add: s1 update_conv')
    show ?thesis
    proof (cases "map_of d ''resize''")
      case None
      with here have "s2 = (AList.update ''resize'' YNone (fst s1), snd s1)"
        using rule by (simp add: resize_rule_absent)
      with None out show ?thesis by (simp add: update_conv')
    next
      case (Some r)
      with here have "map_of (fst s1) ''resize'' = Some r" by simp
      from rule [unfolded resize_rule_present [OF this psize]]
      have "greater_equal_all P r p = Ok True" and "s2 = s1"
        by (auto simp: then_do_Ok split: if_splits)
      with Some p out here show ?thesis by simp
    qed
  qed
  have reached: "(greater_equal_all P r p = Ok False \<longrightarrow> parseConfig P ev d = Fatal resize_too_small) \<and>
      (greater_equal_all P r p = Ok True \<longrightarrow> run (take 5 (rules P ev)) (d, None) = Ok s) \<and>
      (greater_equal_all P r p = Raise e \<longrightarrow> parseConfig P ev d = Raise e)"
    if four: "run ?four (d, None) = Ok s" and r: "map_of d ''resize'' = Some r"
      and p: "map_of d ''patch_size'' = Some p"
  proof -
    from before_resize [OF four] p have s: "s = (AList.update ''psize'' p d, None)" by auto
    have "map_of (fst s) ''resize'' = Some r" and "map_of (fst s) ''psize'' = Some p"
      using r by (simp_all add: s update_conv')
    then have rule: "resize_rule P s =
        then_do (greater_equal_all P r p) (\<lambda>ok. if \<not> ok then Fatal resize_too_small else Ok s)"
      by (rule resize_rule_present)
    have "parseConfig P ev d = Fatal resize_too_small" if "greater_equal_all P r p = Ok False"
    proof -
      from that rule have "resize_rule P s = Fatal resize_too_small" by simp
      then have "run (?four @ resize_rule P # ?rest) (d, None) = Fatal resize_too_small"
        by (simp only: run_middle [OF four] then_do.simps)
      then show ?thesis by (simp only: parseConfig_def rules_resize then_do.simps)
    qed
    moreover have "run (take 5 (rules P ev)) (d, None) = Ok s" if "greater_equal_all P r p = Ok True"
    proof -
      from that rule have "resize_rule P s = Ok s" by simp
      then have "run (?four @ resize_rule P # []) (d, None) = Ok s"
        by (simp only: run_middle [OF four] then_do.simps run.simps)
      then show ?thesis by (simp only: take_rules)
    qed
    moreover have "parseConfig P ev d = Raise e" if "greater_equal_all P r p = Raise e"
    proof -
      from that rule have "resize_rule P s = Raise e" by simp
      then have "run (?four @ resize_rule P # ?rest) (d, None) = Raise e"
        by (simp only: run_middle [OF four] then_do.simps)
      then show ?thesis by (simp only: parseConfig_def rules_resize then_do.simps)
    qed
    ultimately show ?thesis by blast
  qed
  have small: "greater_equal_all P (YList [YInt 64, YInt 64]) (YList [YInt 128, YInt 128]) = Ok False"
    and large: "greater_equal_all P (YList [YInt 128, YInt 128]) (YList [YInt 64, YInt 64]) = Ok True"
    by (simp_all add: greater_equal_all_def ge_all_def int64_def)
  from returned reached greater_equal_all_ints greater_equal_all_lengths greater_equal_all_null
    small large
  show ?thesis unfolding take_rules(1) by blast
qed

theorem resize_checked_witness:
  "returned ''resize'' (parseConfig ideal ''0.0.8'' minimal) = Ok (Some YNone) \<and>
   returned ''resize''
     (parseConfig ideal ''0.0.8'' (AList.update ''resize'' (YList [YInt 128, YInt 128]) minimal))
     = Ok (Some (YList [YInt 128, YInt 128])) \<and>
   parseConfig ideal ''0.0.8''
     (AList.update ''resize'' (YList [YInt 64, YInt 64])
        (AList.update ''patch_size'' (YList [YInt 128, YInt 128]) minimal))
     = Fatal resize_too_small \<and>
   parseConfig ideal ''0.0.8'' (AList.update ''resize'' YNone minimal) = Raise TypeError"
proof -
  let ?run = "\<lambda>d. parseConfig ideal ''0.0.8'' d"
  let ?large = "AList.update ''resize'' (YList [YInt 128, YInt 128]) minimal"
  let ?small = "AList.update ''resize'' (YList [YInt 64, YInt 64])
        (AList.update ''patch_size'' (YList [YInt 128, YInt 128]) minimal)"
  let ?null = "AList.update ''resize'' YNone minimal"
  have given: "map_of minimal ''resize'' = None"
    "map_of ?large ''resize'' = Some (YList [YInt 128, YInt 128])"
    "map_of ?small ''resize'' = Some (YList [YInt 64, YInt 64])"
    "map_of ?small ''patch_size'' = Some (YList [YInt 128, YInt 128])"
    "map_of ?null ''resize'' = Some YNone"
    "map_of ?null ''patch_size'' = Some (YList [YInt 64, YInt 64])"
    by (simp_all add: minimal_def update_conv')
  have "succeeds (?run minimal)" "succeeds (?run ?large)" by code_simp+
  then obtain o1 o2 where r: "?run minimal = Ok o1" "?run ?large = Ok o2"
    by (blast dest: succeeds_Ok)
  have "succeeds (run (take 4 (rules ideal ''0.0.8'')) (?small, None))" by code_simp
  then obtain s where four: "run (take 4 (rules ideal ''0.0.8'')) (?small, None) = Ok s"
    by (blast dest: succeeds_Ok)
  have "succeeds (run (take 4 (rules ideal ''0.0.8'')) (?null, None))" by code_simp
  then obtain s' where four': "run (take 4 (rules ideal ''0.0.8'')) (?null, None) = Ok s'"
    by (blast dest: succeeds_Ok)
  have ints: "int_array (YList [YInt 64, YInt 64] :: rat yaml) = Some [64, 64]"
    by (simp add: int64_def)
  from resize_checked [of ideal "''0.0.8''" minimal o1] r(1) given(1)
  have a: "map_of o1 ''resize'' = Some YNone" by blast
  from resize_checked [of ideal "''0.0.8''" ?large o2] r(2) given(2)
  have b: "map_of o2 ''resize'' = Some (YList [YInt 128, YInt 128])" by blast
  from resize_checked [of ideal "''0.0.8''" ?small _ s "YList [YInt 64, YInt 64]" "YList [YInt 128, YInt 128]"]
    four given(3,4)
  have c: "?run ?small = Fatal resize_too_small" by blast
  have "greater_equal_all ideal YNone (YList [YInt 64, YInt 64]) = Raise TypeError"
    using resize_checked [of ideal _ _ _ _ _ "YList [YInt 64, YInt 64]" _ "[64, 64]"] ints
    by blast
  with resize_checked [of ideal "''0.0.8''" ?null _ s' YNone "YList [YInt 64, YInt 64]" TypeError]
    four' given(5,6)
  have e: "?run ?null = Raise TypeError" by blast
  from a b c e show ?thesis unfolding returned_def r by simp
qed

text \<open>
  Claim C4 as stated lets every \<open>resize\<close> that is not element-wise greater than or equal
  to the patch size end in the fatal exit. A \<open>resize\<close> of three elements against a patch
  size of two is below it wherever the two can be compared, and the run ends with the
  \<open>ValueError\<close> of the comparison instead.
\<close>

theorem resize_of_another_length:
  "map_of (AList.update ''resize'' (YList [YInt 64, YInt 64, YInt 64])
            (AList.update ''patch_size'' (YList [YInt 128, YInt 128]) minimal)) ''resize''
     = Some (YList [YInt 64, YInt 64, YInt 64]) \<and>
   map_of (AList.update ''resize'' (YList [YInt 64, YInt 64, YInt 64])
            (AList.update ''patch_size'' (YList [YInt 128, YInt 128]) minimal)) ''patch_size''
     = Some (YList [YInt 128, YInt 128]) \<and>
   parseConfig ideal ''0.0.8''
     (AList.update ''resize'' (YList [YInt 64, YInt 64, YInt 64])
        (AList.update ''patch_size'' (YList [YInt 128, YInt 128]) minimal))
     = Raise ValueError"
  by code_simp

section \<open>Running a rule on its own result\<close>

lemma again_same:
  assumes "\<And>s s'. rule s = Ok s' \<Longrightarrow> s' = s"
    and "\<And>s d' k'. rule s = Ok s \<Longrightarrow> agree R d' (fst s) \<Longrightarrow> rule (d', k') = Ok (d', k')"
  shows "again R rule"
  unfolding again_def using assms by blast

lemma again_version_rule: "again {''version''} (version_rule P ev)"
proof (rule again_same)
  fix s s' :: "'a state" assume "version_rule P ev s = Ok s'"
  then show "s' = s" by (rule version_rule_same)
next
  fix s :: "'a state" and d' k'
  assume "version_rule P ev s = Ok s" and "agree {''version''} d' (fst s)"
  then show "version_rule P ev (d', k') = Ok (d', k')"
    by (auto simp: version_rule_def agree_def has_key_def lookup_def then_do_Ok
           simp del: parse_version.simps split: if_splits)
qed

lemma again_class_list_rule: "again {''class_list''} class_list_rule"
  by (rule again_same)
     (auto simp: class_list_rule_def agree_def has_key_def split: if_splits)

lemma again_dimension_rule: "again {''dimension''} (dimension_rule P)"
  by (rule again_same)
     (auto simp: dimension_rule_def agree_def lookup_def then_do_Ok split: if_splits option.splits)

lemma again_kcross_validation_rule: "again {''kcross_validation''} kcross_validation_rule"
  by (rule again_same)
     (auto simp: kcross_validation_rule_def agree_def has_key_def split: if_splits)

lemma again_data_preprocessing_rule: "again {''data_preprocessing''} (data_preprocessing_rule P)"
  by (rule again_same)
     (auto simp: data_preprocessing_rule_def agree_def lookup_def then_do_Ok split: option.splits)

lemma again_model_rule: "again {''model''} (model_rule P)"
proof (rule again_same)
  fix s s' :: "'a state" assume "model_rule P s = Ok s'"
  then show "s' = s" by (rule model_rule_same)
next
  fix s :: "'a state" and d' k'
  assume run: "model_rule P s = Ok s" and "agree {''model''} d' (fst s)"
  then have eq: "map_of d' ''model'' = map_of (fst s) ''model''" by (simp add: agree_def)
  from run obtain m where m: "map_of (fst s) ''model'' = Some m"
    by (cases "map_of (fst s) ''model''") (auto simp: model_rule_def has_key_def)
  from run m have "then_do (if \<not> is_dict m then Fatal model_not_dict
                 else then_do (py_len m) (\<lambda>n.
                        if n = 0 then Fatal model_empty else Ok ())) (\<lambda>_.
        then_do (getitem m (YStr ''architecture'')) (\<lambda>a.
          if \<not> truthy P a then Fatal model_no_architecture
          else
            then_do (getitem m (YStr ''final_layer'')) (\<lambda>l.
              if \<not> truthy P l then Fatal model_no_final_layer else Ok s))) = Ok s"
    by (simp add: model_rule_def has_key_def lookup_def)
  then obtain u a l where "(if \<not> is_dict m then Fatal model_not_dict
                 else then_do (py_len m) (\<lambda>n.
                        if n = 0 then Fatal model_empty else Ok ())) = Ok u"
    and "getitem m (YStr ''architecture'') = Ok a" and "truthy P a"
    and "getitem m (YStr ''final_layer'') = Ok l" and "truthy P l"
    by (auto simp: then_do_Ok split: if_splits)
  then show "model_rule P (d', k') = Ok (d', k')"
    using m eq by (simp add: model_rule_def has_key_def lookup_def)
qed

lemma again_nested_training_rule: "again {''nested_training''} (nested_training_rule P)"
proof (rule again_same)
  fix s s' :: "'a state" assume "nested_training_rule P s = Ok s'"
  then show "s' = s" by (rule nested_training_rule_same)
next
  fix s :: "'a state" and d' k'
  assume run: "nested_training_rule P s = Ok s" and "agree {''nested_training''} d' (fst s)"
  then have eq: "map_of d' ''nested_training'' = map_of (fst s) ''nested_training''"
    by (simp add: agree_def)
  from run obtain nt where nt: "map_of (fst s) ''nested_training'' = Some nt"
    by (cases "map_of (fst s) ''nested_training''") (auto simp: nested_training_rule_def lookup_def)
  from run nt have t: "truthy P nt"
    and "then_do (getitem nt (YStr ''holdout'')) (\<lambda>h.
         then_do (if \<not> truthy P h then default_folds nt ''holdout'' else Ok ()) (\<lambda>_.
         then_do (getitem nt (YStr ''validation'')) (\<lambda>v.
         then_do (if \<not> truthy P v then default_folds nt ''validation'' else Ok ()) (\<lambda>_.
         Ok s)))) = Ok s"
    by (auto simp: nested_training_rule_def lookup_def split: if_splits)
  then obtain h v where h: "getitem nt (YStr ''holdout'') = Ok h"
    and v: "getitem nt (YStr ''validation'') = Ok v"
    by (auto simp: then_do_Ok)
  then show "nested_training_rule P (d', k') = Ok (d', k')"
    using nt eq t by (simp add: nested_training_rule_def lookup_def default_folds_def)
qed

lemma again_patch_size_rule: "again {''patch_size'', ''psize''} patch_size_rule"
  unfolding again_def
proof (intro allI impI)
  fix s s' :: "'a state" and d' k'
  assume run: "patch_size_rule s = Ok s'" and ag: "agree {''patch_size'', ''psize''} d' (fst s')"
  from run obtain v where v: "map_of (fst s) ''patch_size'' = Some v"
    and s': "s' = (AList.update ''psize'' v (fst s), snd s)"
    by (auto simp: patch_size_rule_def has_key_def lookup_def split: if_splits option.splits)
  from ag s' v have "map_of d' ''patch_size'' = Some v" and p: "map_of d' ''psize'' = Some v"
    by (simp_all add: agree_def update_conv')
  then show "patch_size_rule (d', k') = Ok (d', k')"
    by (simp add: patch_size_rule_def has_key_def lookup_def update_triv)
qed

lemma again_default_rule:
  assumes idem: "\<And>v x. convert v = Ok x \<Longrightarrow> convert x = Ok x" and dflt: "convert dflt = Ok dflt"
  shows "again {name} (default_rule name convert dflt)"
  unfolding again_def
proof (intro allI impI)
  fix s s' :: "'a state" and d' k'
  assume run: "default_rule name convert dflt s = Ok s'" and ag: "agree {name} d' (fst s')"
  from run obtain x where x: "convert x = Ok x" and s': "s' = (AList.update name x (fst s), snd s)"
    using idem dflt by (auto simp: default_rule_def then_do_Ok split: if_splits)
  from ag s' have "map_of d' name = Some x" by (simp add: agree_def update_conv')
  then show "default_rule name convert dflt (d', k') = Ok (d', k')"
    using x by (simp add: default_rule_def has_key_def lookup_def update_triv)
qed

lemma to_int_again: "to_int P v = Ok x \<Longrightarrow> to_int P x = Ok x"
  by (auto simp: to_int_def then_do_Ok)

lemma to_float_again: "to_float P v = Ok x \<Longrightarrow> to_float P x = Ok x"
  by (auto simp: to_float_def then_do_Ok)

lemma to_bool_again: "to_bool P v = Ok x \<Longrightarrow> to_bool P x = Ok x"
  by (auto simp: to_bool_def)

lemma to_str_again: "to_str P v = Ok x \<Longrightarrow> to_str P x = Ok x"
  by (auto simp: to_str_def then_do_Ok)

lemma again_defaults:
  "again {''batch_size''} (batch_size_rule P)"
  "again {''amp''} (amp_rule P)"
  "again {''learning_rate''} (learning_rate_rule P)"
  "again {''opt''} (opt_rule P)"
  "again {''base_filters''} (base_filters_rule P)"
  "again {''scheduler''} (scheduler_rule P)"
  "again {''q_max_length''} (q_max_length_rule P)"
  "again {''q_samples_per_volume''} (q_samples_per_volume_rule P)"
  "again {''q_num_workers''} (q_num_workers_rule P)"
  unfolding batch_size_rule_def amp_rule_def learning_rate_rule_def opt_rule_def
    base_filters_rule_def scheduler_rule_def q_max_length_rule_def
    q_samples_per_volume_rule_def q_num_workers_rule_def
  by (rule again_default_rule, erule to_int_again to_float_again to_bool_again to_str_again,
      simp add: to_int_def to_float_def to_bool_def to_str_def)+

lemma again_epochs_rule: "again {''num_epochs'', ''patience''} (epochs_rule P)"
  unfolding again_def
proof (intro allI impI)
  fix s s' :: "'a state" and d' k'
  assume run: "epochs_rule P s = Ok s'" and ag: "agree {''num_epochs'', ''patience''} d' (fst s')"
  from run obtain a b where
    s': "s' = (AList.update ''patience'' (YInt b) (AList.update ''num_epochs'' (YInt a) (fst s)), snd s)"
    by (auto simp: epochs_rule_def then_do_Ok Let_def)
  from ag s' have a: "map_of d' ''num_epochs'' = Some (YInt a)"
    and b: "map_of d' ''patience'' = Some (YInt b)"
    by (simp_all add: agree_def update_conv')
  then have "AList.update ''num_epochs'' (YInt a) d' = d'" and "AList.update ''patience'' (YInt b) d' = d'"
    by (simp_all add: update_triv)
  then show "epochs_rule P (d', k') = Ok (d', k')"
    using a b by (simp add: epochs_rule_def has_key_def lookup_def Let_def)
qed

lemma again_which_model_rule: "again {''modelName'', ''which_model''} (which_model_rule P)"
  unfolding again_def
proof (intro allI impI)
  fix s s' :: "'a state" and d' k'
  assume run: "which_model_rule P s = Ok s'" and ag: "agree {''modelName'', ''which_model''} d' (fst s')"
  from run obtain w where s': "s' = (AList.update ''which_model'' (YStr w) (fst s), snd s)"
    and w: "\<And>v. map_of (fst s) ''modelName'' = Some v \<Longrightarrow> py_str P v = Ok w"
    by (auto simp: which_model_rule_def then_do_Ok has_key_def lookup_def split: if_splits option.splits)
  from ag s' have m: "map_of d' ''modelName'' = map_of (fst s) ''modelName''"
    and wm: "map_of d' ''which_model'' = Some (YStr w)"
    by (simp_all add: agree_def update_conv')
  then have "AList.update ''which_model'' (YStr w) d' = d'" by (simp add: update_triv)
  then show "which_model_rule P (d', k') = Ok (d', k')"
    using m wm w by (cases "map_of (fst s) ''modelName''")
      (simp_all add: which_model_rule_def has_key_def lookup_def)
qed

lemma replace_quotes_again: "replace_quotes v = Ok x \<Longrightarrow> replace_quotes x = Ok x"
  by (cases v) (auto intro!: filter_cong)

lemma again_parallel_compute_command_rule:
  "again {''parallel_compute_command''} parallel_compute_command_rule"
  unfolding again_def
proof (intro allI impI)
  fix s s' :: "'a state" and d' k'
  assume run: "parallel_compute_command_rule s = Ok s'"
    and ag: "agree {''parallel_compute_command''} d' (fst s')"
  have "\<exists>x. replace_quotes x = Ok x \<and>
          s' = (AList.update ''parallel_compute_command'' x (fst s), snd s)"
  proof (cases "has_key (fst s) ''parallel_compute_command''")
    case True
    with run show ?thesis
      by (auto simp: parallel_compute_command_rule_def then_do_Ok dest: replace_quotes_again)
  next
    case False
    with run have "s' = (AList.update ''parallel_compute_command'' (YStr []) (fst s), snd s)"
      by (simp add: parallel_compute_command_rule_def)
    moreover have "replace_quotes (YStr [] :: 'a yaml) = Ok (YStr [])" by simp
    ultimately show ?thesis by blast
  qed
  then obtain x where x: "replace_quotes x = Ok x"
    and s': "s' = (AList.update ''parallel_compute_command'' x (fst s), snd s)" by blast
  from ag s' have "map_of d' ''parallel_compute_command'' = Some x"
    by (simp add: agree_def update_conv')
  then show "parallel_compute_command_rule (d', k') = Ok (d', k')"
    using x by (simp add: parallel_compute_command_rule_def has_key_def lookup_def update_triv)
qed

subsection \<open>Filling an entry\<close>

lemma index_list_update: "index (xs[j := e]) i = index xs i"
  by (simp add: index_def)

lemma getitem_setitem: "setitem c k e = Ok c' \<Longrightarrow> getitem c' k = Ok e"
proof (cases "(c, k, e)" rule: setitem.cases)
  case (3 xs k' x)
  assume "setitem c k e = Ok c'"
  with 3 obtain i j where "int_of_key k = Some i" and "index xs i = Some j" and "c' = YList (xs[j := e])"
    by (auto split: option.splits)
  moreover from this have "j < length xs" by (auto simp: index_def split: if_splits)
  ultimately show ?thesis using 3 by (simp add: index_list_update)
qed (auto simp: lookup_def update_conv')

lemma length_update_present: "map_of m k = Some v \<Longrightarrow> length (AList.update k e m) = length m"
  by (induction m) (auto split: if_splits)

lemma py_len_setitem:
  "getitem c k = Ok v \<Longrightarrow> setitem c k e = Ok c' \<Longrightarrow> py_len c' = py_len c"
proof (cases "(c, k, e)" rule: setitem.cases)
  case (1 m s x)
  assume "getitem c k = Ok v" and "setitem c k e = Ok c'"
  with 1 show ?thesis
    by (auto simp: lookup_def length_update_present split: option.splits)
qed (auto split: option.splits)

lemma is_dict_setitem: "setitem c k e = Ok c' \<Longrightarrow> is_dict c' = is_dict c"
  by (cases "(c, k, e)" rule: setitem.cases) (auto split: option.splits)

text \<open>The two outcomes of a successful \<open>fill_entry\<close>.\<close>

lemma fill_entry_cases:
  assumes "fill_entry d name key sub x = Ok d1"
  obtains (kept) c e where "map_of d name = Some c" and "getitem c key = Ok e"
      and "e \<noteq> YNone" and "contains sub e = Ok True" and "d1 = d"
    | (filled) c e c1 c2 where "map_of d name = Some c" and "getitem c key = Ok e"
      and "setitem c key (YDict []) = Ok c1"
      and "setitem c1 key (YDict [(sub, x)]) = Ok c2"
      and "d1 = AList.update name c2 d"
proof -
  from assms obtain c e fill where c: "map_of d name = Some c" and e: "getitem c key = Ok e"
    and f: "(if e = YNone then Ok True else then_do (contains sub e) (\<lambda>has. Ok (\<not> has))) = Ok fill"
    and r: "(if fill then then_do (store2 d name key (YDict [])) (\<lambda>d1. store3 d1 name key sub x)
            else Ok d) = Ok d1"
    by (auto simp: fill_entry_def then_do_Ok lookup_def split: option.splits)
  show ?thesis
  proof (cases fill)
    case False
    with f have "e \<noteq> YNone" and "contains sub e = Ok True"
      by (auto simp: then_do_Ok split: if_splits)
    with False r c e show ?thesis by (auto intro: kept)
  next
    case True
    with r obtain da where a: "store2 d name key (YDict []) = Ok da"
      and b: "store3 da name key sub x = Ok d1" by (auto simp: then_do_Ok)
    from a c obtain c1 where c1: "setitem c key (YDict []) = Ok c1"
      and da: "da = AList.update name c1 d"
      by (auto simp: store2_def then_do_Ok lookup_def)
    from getitem_setitem [OF c1] have g: "getitem c1 key = Ok (YDict [])" .
    from b da g obtain c2 where c2: "setitem c1 key (YDict [(sub, x)]) = Ok c2"
      and d1: "d1 = AList.update name c2 (AList.update name c1 d)"
      by (auto simp: store3_def then_do_Ok lookup_def update_conv')
    from d1 have "d1 = AList.update name c2 d" by simp
    with c e c1 c2 show ?thesis by (rule filled)
  qed
qed

lemma fill_entry_again:
  assumes "fill_entry d name key sub x = Ok d1" and "map_of d' name = map_of d1 name"
  shows "fill_entry d' name key sub x = Ok d'"
  using assms(1)
proof (cases rule: fill_entry_cases)
  case (kept c e)
  with assms(2) show ?thesis by (simp add: fill_entry_def lookup_def)
next
  case (filled c e c1 c2)
  from getitem_setitem [OF filled(4)] have "getitem c2 key = Ok (YDict [(sub, x)])" .
  moreover from filled(5) assms(2) have "map_of d' name = Some c2" by (simp add: update_conv')
  ultimately show ?thesis by (simp add: fill_entry_def lookup_def has_key_def)
qed

lemma fill_entry_len:
  assumes "fill_entry d name key sub x = Ok d1"
  shows "\<exists>c c1. map_of d name = Some c \<and> map_of d1 name = Some c1 \<and> py_len c1 = py_len c"
  using assms
proof (cases rule: fill_entry_cases)
  case (kept c e)
  then show ?thesis by auto
next
  case (filled c e c1 c2)
  from py_len_setitem [OF filled(2,3)] have a: "py_len c1 = py_len c" .
  from getitem_setitem [OF filled(3)] have "getitem c1 key = Ok (YDict [])" .
  from py_len_setitem [OF this filled(4)] a have "py_len c2 = py_len c" by simp
  with filled show ?thesis by (simp add: update_conv')
qed

lemma fill_entry_dict:
  assumes "fill_entry d name (YStr k) sub x = Ok d1" and "map_of d name = Some (YDict m)"
  shows "\<exists>m1. map_of d1 name = Some (YDict m1) \<and> map fst m1 = map fst m \<and> filled k sub m1"
  using assms(1)
proof (cases rule: fill_entry_cases)
  case (kept c e)
  with assms(2) show ?thesis by (auto simp: filled_def lookup_def split: option.splits)
next
  case (filled c e c1 c2)
  with assms(2) have c: "c = YDict m" and e: "map_of m k = Some e"
    by (auto simp: lookup_def split: option.splits)
  with filled have c2: "c2 = YDict (AList.update k (YDict [(sub, x)]) m)" by auto
  from e have "k \<in> set (map fst m)" by (metis map_of_eq_None_iff option.distinct(1) set_map)
  then have "map fst (AList.update k (YDict [(sub, x)]) m) = map fst m" by (simp add: update_keys)
  moreover have "filled k sub (AList.update k (YDict [(sub, x)]) m)"
    by (simp add: filled_def update_conv' has_key_def)
  ultimately show ?thesis using filled(5) c2 by (simp add: update_conv')
qed

subsection \<open>The resize rule and the verbosity flag\<close>

lemma resize_rule_again:
  assumes "resize_rule P s = Ok s'" and "has_key (fst s) ''resize''"
    and "agree {''resize'', ''psize''} d' (fst s')"
  shows "resize_rule P (d', k') = Ok (d', k')"
proof -
  from assms(1,2) have same: "s' = s"
    by (auto simp: resize_rule_def then_do_Ok split: if_splits)
  with assms(3) have "map_of d' ''resize'' = map_of (fst s) ''resize''"
    and "map_of d' ''psize'' = map_of (fst s) ''psize''" by (simp_all add: agree_def)
  with assms(1,2) same show ?thesis
    by (auto simp: resize_rule_def has_key_def lookup_def then_do_Ok split: if_splits option.splits)
qed

lemma q_verbose_rule_again:
  assumes "q_verbose_rule s = Ok s'" and "map_of (fst s) ''q_verbose'' \<noteq> Some (YStr ''True'')"
    and "agree {''q_verbose''} d' (fst s')"
  shows "q_verbose_rule (d', k') = Ok (d', k')"
proof -
  have "s' = (AList.update ''q_verbose'' (YBool False) (fst s), snd s)"
  proof (cases "map_of (fst s) ''q_verbose''")
    case None
    with assms(1) show ?thesis by (simp add: q_verbose_rule_def has_key_def)
  next
    case (Some v)
    with assms(2) have "v \<noteq> YStr ''True''" by simp
    with Some assms(1) show ?thesis by (simp add: q_verbose_rule_def has_key_def lookup_def)
  qed
  with assms(3) have "map_of d' ''q_verbose'' = Some (YBool False)"
    by (simp add: agree_def update_conv')
  then show ?thesis
    by (simp add: q_verbose_rule_def has_key_def lookup_def update_triv)
qed

subsection \<open>The loss-function loop\<close>

lemma loss_loop_tag:
  assumes "loss_loop keys (d, k) = Ok s1" and "map_of d ''loss_function'' = Some (YStr t)"
    and "t \<noteq> ''mse''" and "\<forall>key \<in> set keys. \<exists>str. key = YStr str"
  shows "\<exists>t'. t' \<noteq> ''mse'' \<and> map_of (fst s1) ''loss_function'' = Some (YStr t')"
  using assms
proof (induction keys arbitrary: d k t)
  case Nil
  then show ?case by auto
next
  case (Cons key keys)
  from Cons.prems(4) obtain str where key: "key = YStr str" by auto
  from Cons.prems(1) obtain d2 where body: "loss_body key d = Ok d2"
    and rest: "loss_loop keys (d2, Some key) = Ok s1" by (auto simp: then_do_Ok)
  have "str \<noteq> ''mse''"
  proof
    assume "str = ''mse''"
    with body key Cons.prems(2) show False
      by (simp add: loss_body_def fill_entry_def lookup_def)
  qed
  with body key have "map_of d2 ''loss_function'' = Some (YStr str)"
    by (auto simp: loss_body_def update_conv')
  from Cons.IH [OF rest this \<open>str \<noteq> ''mse''\<close>] Cons.prems(4) show ?case by simp
qed

lemma loss_loop_dict:
  assumes "loss_loop keys (d, k) = Ok s1" and "map_of d ''loss_function'' = Some (YDict m)"
    and "\<forall>key \<in> set keys. \<exists>str. key = YStr str"
  shows "(\<exists>t. t \<noteq> ''mse'' \<and> map_of (fst s1) ''loss_function'' = Some (YStr t)) \<or>
         ((\<forall>key \<in> set keys. key = YStr ''mse'') \<and>
          snd s1 = (if keys = [] then k else Some (YStr ''mse'')) \<and>
          (\<exists>m1. map_of (fst s1) ''loss_function'' = Some (YDict m1) \<and> map fst m1 = map fst m \<and>
                (keys \<noteq> [] \<longrightarrow> filled ''mse'' ''reduction'' m1)))"
  using assms
proof (induction keys arbitrary: d k m)
  case Nil
  then show ?case by auto
next
  case (Cons key keys)
  from Cons.prems(3) obtain str where key: "key = YStr str" by auto
  from Cons.prems(3) have strs: "\<forall>key \<in> set keys. \<exists>str. key = YStr str" by simp
  from Cons.prems(1) obtain d2 where body: "loss_body key d = Ok d2"
    and rest: "loss_loop keys (d2, Some key) = Ok s1" by (auto simp: then_do_Ok)
  show ?case
  proof (cases "str = ''mse''")
    case False
    with body key have "map_of d2 ''loss_function'' = Some (YStr str)"
      by (auto simp: loss_body_def update_conv')
    from loss_loop_tag [OF rest this False strs] show ?thesis by blast
  next
    case True
    with body key have "fill_entry d ''loss_function'' (YStr ''mse'') ''reduction'' (YStr ''mean'') = Ok d2"
      by (simp add: loss_body_def)
    from fill_entry_dict [OF this Cons.prems(2)] obtain m2 where
      m2: "map_of d2 ''loss_function'' = Some (YDict m2)" and keys: "map fst m2 = map fst m"
      and f: "filled ''mse'' ''reduction'' m2" by blast
    from Cons.IH [OF rest m2 strs] show ?thesis
    proof
      assume "\<exists>t. t \<noteq> ''mse'' \<and> map_of (fst s1) ''loss_function'' = Some (YStr t)"
      then show ?thesis by blast
    next
      assume a: "(\<forall>key \<in> set keys. key = YStr ''mse'') \<and>
          snd s1 = (if keys = [] then Some key else Some (YStr ''mse'')) \<and>
          (\<exists>m1. map_of (fst s1) ''loss_function'' = Some (YDict m1) \<and> map fst m1 = map fst m2 \<and>
                (keys \<noteq> [] \<longrightarrow> filled ''mse'' ''reduction'' m1))"
      then obtain m1 where m1: "map_of (fst s1) ''loss_function'' = Some (YDict m1)"
        and k1: "map fst m1 = map fst m2" and f1: "keys \<noteq> [] \<longrightarrow> filled ''mse'' ''reduction'' m1"
        by blast
      have "filled ''mse'' ''reduction'' m1"
      proof (cases "keys = []")
        case True
        with rest have "s1 = (d2, Some key)" by simp
        with m2 m1 f show ?thesis by simp
      next
        case False
        with f1 show ?thesis by simp
      qed
      with a m1 k1 keys key True show ?thesis by auto
    qed
  qed
qed

lemma loss_loop_settled:
  assumes "\<forall>key \<in> set keys. key = YStr ''mse''"
    and "map_of d ''loss_function'' = Some (YDict m)" and "filled ''mse'' ''reduction'' m"
  shows "loss_loop keys (d, k) = Ok (d, if keys = [] then k else Some (YStr ''mse''))"
  using assms(1)
proof (induction keys arbitrary: k)
  case Nil
  show ?case by simp
next
  case (Cons key keys)
  then have key: "key = YStr ''mse''" by simp
  from assms(2,3) have "loss_body key d = Ok d"
    by (auto simp: key loss_body_def fill_entry_def lookup_def filled_def)
  moreover from Cons have "loss_loop keys (d, Some key) = Ok (d, if keys = [] then Some key else Some (YStr ''mse''))"
    by simp
  ultimately show ?case by (simp add: key)
qed

lemma same_keys_all:
  assumes "map fst m1 = map fst m" and "\<forall>p \<in> set m. fst p = c"
  shows "\<forall>p \<in> set m1. fst p = c"
proof -
  from assms(2) have "\<forall>x \<in> set (map fst m). x = c" by simp
  then have "\<forall>x \<in> set (map fst m1). x = c" by (simp only: assms(1))
  then show ?thesis by simp
qed

lemma settled_loss_other: "\<not> is_dict L \<Longrightarrow> settled_loss L \<longleftrightarrow> L \<noteq> YStr ''mse''"
  by (cases L) (simp_all add: settled_loss_def)

lemma iter_dict_strings: "\<forall>key \<in> set (map (\<lambda>p. YStr (fst p)) m). \<exists>str. key = YStr str"
  by auto

lemma loss_given_dict:
  assumes "loss_given (YDict m) s = Ok (s1, flag)" and "m \<noteq> []"
    and "map_of (fst s) ''loss_function'' = Some (YDict m)"
  shows "\<not> flag \<and>
         ((\<exists>t. t \<noteq> ''mse'' \<and> map_of (fst s1) ''loss_function'' = Some (YStr t)) \<or>
          ((\<forall>p \<in> set m. fst p = ''mse'') \<and> snd s1 = Some (YStr ''mse'') \<and>
           (\<exists>m1. map_of (fst s1) ''loss_function'' = Some (YDict m1) \<and> map fst m1 = map fst m \<and>
                 filled ''mse'' ''reduction'' m1)))"
proof -
  let ?keys = "map (\<lambda>p. YStr (fst p)) m :: 'a yaml list"
  from assms(1,2) have loop: "loss_loop ?keys (fst s, snd s) = Ok s1" and flag: "\<not> flag"
    by (auto simp: loss_given_def then_do_Ok)
  from assms(2) have ne: "?keys \<noteq> []" by simp
  from loss_loop_dict [OF loop assms(3) iter_dict_strings] ne flag show ?thesis by auto
qed

lemma loss_function_rule_settles:
  assumes "loss_function_rule s = Ok s'"
  shows "\<exists>L. map_of (fst s') ''loss_function'' = Some L \<and> settled_loss L"
proof -
  from assms obtain r where first: "(if has_key (fst s) ''loss_function''
             then then_do (lookup (fst s) ''loss_function'') (\<lambda>lf. loss_given lf s)
             else Ok (s, True)) = Ok r" and store: "loss_store r = Ok s'"
    unfolding loss_function_rule_def then_do_Ok by blast
  obtain s1 flag where r: "r = (s1, flag)" by (cases r)
  from store r have s': "flag \<Longrightarrow> map_of (fst s') ''loss_function'' = Some (YStr ''dc'')"
    "\<not> flag \<Longrightarrow> map_of (fst s') ''loss_function'' = map_of (fst s1) ''loss_function'' \<and>
       map_of (fst s1) ''loss_function'' \<noteq> None"
    by (auto simp: loss_store_def then_do_Ok update_conv' lookup_def split: option.splits)
  have dc: "settled_loss (YStr ''dc'' :: 'a yaml)" by (simp add: settled_loss_def)
  show ?thesis
  proof (cases "map_of (fst s) ''loss_function''")
    case None
    with first r have flag by (simp add: has_key_def)
    with s'(1) dc show ?thesis by blast
  next
    case (Some lf)
    with first r have given: "loss_given lf s = Ok (s1, flag)"
      by (simp add: has_key_def lookup_def)
    show ?thesis
    proof (cases "is_dict lf")
      case False
      show ?thesis
      proof (cases "lf = YStr ''mse''")
        case True
        with given have "\<not> flag" and "map_of (fst s1) ''loss_function'' =
            Some (YDict [(''mse'', YDict [(''reduction'', YStr ''mean'')])])"
          by (auto simp: loss_given_def update_conv')
        moreover have "settled_loss (YDict [(''mse'', YDict [(''reduction'', YStr ''mean'')])] :: 'a yaml)"
          by (simp add: settled_loss_def filled_def has_key_def)
        ultimately show ?thesis using s'(2) by simp
      next
        case other: False
        with given False have "\<not> flag" and "s1 = s" by (auto simp: loss_given_def)
        with s'(2) Some have "map_of (fst s') ''loss_function'' = Some lf" by simp
        moreover from False other have "settled_loss lf" by (simp add: settled_loss_other)
        ultimately show ?thesis by blast
      qed
    next
      case True
      then obtain m where YDict: "lf = YDict m" by (cases lf) auto
      show ?thesis
      proof (cases "m = []")
        case True
        with given YDict have flag by (simp add: loss_given_def)
        with s'(1) dc show ?thesis by blast
      next
        case False
        from loss_given_dict [OF given [unfolded YDict] False Some [unfolded YDict]]
        have nf: "\<not> flag" and alt: "(\<exists>t. t \<noteq> ''mse'' \<and> map_of (fst s1) ''loss_function'' = Some (YStr t)) \<or>
          ((\<forall>p \<in> set m. fst p = ''mse'') \<and> snd s1 = Some (YStr ''mse'') \<and>
           (\<exists>m1. map_of (fst s1) ''loss_function'' = Some (YDict m1) \<and> map fst m1 = map fst m \<and>
                 filled ''mse'' ''reduction'' m1))" by blast+
        from alt show ?thesis
        proof
          assume "\<exists>t. t \<noteq> ''mse'' \<and> map_of (fst s1) ''loss_function'' = Some (YStr t)"
          then obtain t where "t \<noteq> ''mse''" and "map_of (fst s1) ''loss_function'' = Some (YStr t)"
            by blast
          with s'(2) [OF nf] show ?thesis by (simp add: settled_loss_def)
        next
          assume "(\<forall>p \<in> set m. fst p = ''mse'') \<and> snd s1 = Some (YStr ''mse'') \<and>
           (\<exists>m1. map_of (fst s1) ''loss_function'' = Some (YDict m1) \<and> map fst m1 = map fst m \<and>
                 filled ''mse'' ''reduction'' m1)"
          then obtain m1 where all: "\<forall>p \<in> set m. fst p = ''mse''"
            and m1: "map_of (fst s1) ''loss_function'' = Some (YDict m1)"
            and keys: "map fst m1 = map fst m" and f: "filled ''mse'' ''reduction'' m1" by blast
          from keys False have "m1 \<noteq> []" by auto
          moreover from keys all have "\<forall>p \<in> set m1. fst p = ''mse''"
            by (rule same_keys_all)
          ultimately have "settled_loss (YDict m1)" using f by (simp add: settled_loss_def)
          with s'(2) [OF nf] m1 show ?thesis by simp
        qed
      qed
    qed
  qed
qed

lemma loss_loop_mse:
  assumes "loss_loop keys (d, k) = Ok s1" and "map_of d ''loss_function'' = Some (YDict m)"
    and "\<forall>key \<in> set keys. key = YStr ''mse''"
  shows "snd s1 = (if keys = [] then k else Some (YStr ''mse'')) \<and>
         (\<exists>m1. map_of (fst s1) ''loss_function'' = Some (YDict m1))"
  using assms
proof (induction keys arbitrary: d k m)
  case Nil
  then show ?case by auto
next
  case (Cons key keys)
  then have key: "key = YStr ''mse''" by simp
  from Cons.prems(1) obtain d2 where body: "loss_body key d = Ok d2"
    and rest: "loss_loop keys (d2, Some key) = Ok s1" by (auto simp: then_do_Ok)
  from body key have "fill_entry d ''loss_function'' (YStr ''mse'') ''reduction'' (YStr ''mean'') = Ok d2"
    by (simp add: loss_body_def)
  from fill_entry_dict [OF this Cons.prems(2)] obtain m2 where
    m2: "map_of d2 ''loss_function'' = Some (YDict m2)" by blast
  from Cons.prems(3) have "\<forall>key \<in> set keys. key = YStr ''mse''" by simp
  from Cons.IH [OF rest m2 this]
  have "snd s1 = (if keys = [] then Some key else Some (YStr ''mse''))"
    and "\<exists>m1. map_of (fst s1) ''loss_function'' = Some (YDict m1)" by blast+
  then show ?case using key by (cases "keys = []") simp_all
qed

lemma loss_function_rule_key:
  assumes "loss_function_rule s = Ok s'" and "map_of (fst s) ''loss_function'' = Some (YDict m)"
    and "m \<noteq> []" and "\<forall>p \<in> set m. fst p = ''mse''"
  shows "snd s' = Some (YStr ''mse'') \<and> (\<exists>m1. map_of (fst s') ''loss_function'' = Some (YDict m1))"
proof -
  let ?keys = "map (\<lambda>p. YStr (fst p)) m :: 'a yaml list"
  from assms(1,2) obtain s1 flag where given: "loss_given (YDict m) s = Ok (s1, flag)"
    and store: "loss_store (s1, flag) = Ok s'"
    by (auto simp: loss_function_rule_def then_do_Ok has_key_def lookup_def)
  from given assms(3) have loop: "loss_loop ?keys (fst s, snd s) = Ok s1" and nf: "\<not> flag"
    by (auto simp: loss_given_def then_do_Ok)
  from assms(4) have "\<forall>key \<in> set ?keys. key = YStr ''mse''" by auto
  from loss_loop_mse [OF loop assms(2) this] assms(3)
  obtain m1 where "snd s1 = Some (YStr ''mse'')" and "map_of (fst s1) ''loss_function'' = Some (YDict m1)"
    by auto
  with store nf show ?thesis
    by (auto simp: loss_store_def lookup_def update_conv')
qed

lemma loss_function_rule_again:
  assumes "map_of d' ''loss_function'' = Some L" and "settled_loss L"
  shows "loss_function_rule (d', k') = Ok (d', if is_dict L then Some (YStr ''mse'') else k')"
proof (cases "is_dict L")
  case True
  then obtain m where YDict: "L = YDict m" by (cases L) auto
  let ?keys = "map (\<lambda>p. YStr (fst p)) m :: 'a yaml list"
  from assms(2) YDict have ne: "m \<noteq> []" and all: "\<forall>p \<in> set m. fst p = ''mse''"
    and f: "filled ''mse'' ''reduction'' m" by (simp_all add: settled_loss_def)
  from all have "\<forall>key \<in> set ?keys. key = YStr ''mse''" by auto
  from loss_loop_settled [OF this assms(1) [unfolded YDict] f, of k'] ne
  have "loss_loop ?keys (d', k') = Ok (d', Some (YStr ''mse''))" by simp
  with ne have "loss_given (YDict m) (d', k') = Ok ((d', Some (YStr ''mse'')), False)"
    by (simp add: loss_given_def)
  with assms(1) YDict show ?thesis
    by (simp add: loss_function_rule_def has_key_def lookup_def loss_store_def update_triv)
next
  case False
  with assms(2) have "L \<noteq> YStr ''mse''" by (simp add: settled_loss_other)
  with False have "loss_given L (d', k') = Ok ((d', k'), False)" by (simp add: loss_given_def)
  with assms(1) False show ?thesis
    by (simp add: loss_function_rule_def has_key_def lookup_def loss_store_def update_triv)
qed

subsection \<open>The augmentation rule\<close>

lemma data_augmentation_rule_again:
  assumes "data_augmentation_rule s = Ok s'" and "agree {''data_augmentation''} d' (fst s')"
    and "k' = snd s \<or> (\<exists>v. map_of d' ''data_augmentation'' = Some v \<and> py_len v = Ok 0)"
  shows "data_augmentation_rule (d', k') = Ok (d', k')"
proof -
  from assms(2) have eq: "map_of d' ''data_augmentation'' = map_of (fst s') ''data_augmentation''"
    by (simp add: agree_def)
  from assms(1) obtain da n where da: "map_of (fst s) ''data_augmentation'' = Some da"
    and n: "py_len da = Ok n" and body: "(if n > 0 then augmentation_body s else Ok s) = Ok s'"
    by (auto simp: data_augmentation_rule_def then_do_Ok lookup_def split: option.splits)
  show ?thesis
  proof (cases "n > 0")
    case False
    with body have "s' = s" by simp
    with eq da n False show ?thesis
      by (simp add: data_augmentation_rule_def lookup_def)
  next
    case True
    with body have ab: "augmentation_body s = Ok s'" by simp
    then obtain key where key: "snd s = Some key"
      by (cases "snd s") (auto simp: augmentation_body_def)
    show ?thesis
    proof (cases "key \<in> set keysToSkip")
      case skip: True
      with ab key have "s' = s" by (simp add: augmentation_body_def)
      with eq da have here: "map_of d' ''data_augmentation'' = Some da" by simp
      with assms(3) n True have "k' = snd s" by auto
      with here n True key skip show ?thesis
        by (simp add: data_augmentation_rule_def lookup_def augmentation_body_def)
    next
      case noskip: False
      with ab key obtain d1 where
        fill: "fill_entry (fst s) ''data_augmentation'' key ''probability'' (YInt 1) = Ok d1"
        and s': "s' = (d1, snd s)"
        by (auto simp: augmentation_body_def then_do_Ok)
      from fill_entry_len [OF fill] da obtain c1 where c1: "map_of d1 ''data_augmentation'' = Some c1"
        and len: "py_len c1 = Ok n" using n by auto
      from eq s' c1 have here: "map_of d' ''data_augmentation'' = Some c1" by simp
      with assms(3) len True have k': "k' = snd s" by auto
      from eq s' have "map_of d' ''data_augmentation'' = map_of d1 ''data_augmentation''" by simp
      from fill_entry_again [OF fill this]
      have "fill_entry d' ''data_augmentation'' key ''probability'' (YInt 1) = Ok d'" .
      with here len True k' key noskip show ?thesis
        by (simp add: data_augmentation_rule_def lookup_def augmentation_body_def)
    qed
  qed
qed

section \<open>Running the function on its own result\<close>

lemma run_settled:
  assumes "settled rs" and "run (map snd rs) s = Ok s1"
    and "\<forall>p \<in> set rs. agree (fst p) d' (fst s1)"
  shows "run (map snd rs) (d', k') = Ok (d', k')"
  using assms
proof (induction rs arbitrary: s)
  case Nil
  show ?case by simp
next
  case (Cons p rest)
  from Cons.prems(2) obtain sa where a: "snd p s = Ok sa" and b: "run (map snd rest) sa = Ok s1"
    by (auto simp: then_do_Ok)
  from Cons.prems(1) have ag: "again (fst p) (snd p)"
    and pr: "\<forall>n \<in> fst p. list_all (preserves n) (map snd rest)" and st: "settled rest" by simp_all
  have "agree (fst p) d' (fst sa)"
    unfolding agree_def
  proof
    fix n assume n: "n \<in> fst p"
    with pr have "list_all (preserves n) (map snd rest)" by blast
    from run_preserves [OF this] b have "map_of (fst s1) n = map_of (fst sa) n"
      unfolding preserves_def by blast
    moreover from Cons.prems(3) n have "map_of d' n = map_of (fst s1) n" by (simp add: agree_def)
    ultimately show "map_of d' n = map_of (fst sa) n" by simp
  qed
  with ag a have "snd p (d', k') = Ok (d', k')" unfolding again_def by blast
  moreover from Cons.IH [OF st b] Cons.prems(3) have "run (map snd rest) (d', k') = Ok (d', k')"
    by simp
  ultimately show ?case by simp
qed

lemmas rule_preserves =
  default_rule_preserves patch_size_rule_preserves resize_rule_preserves epochs_rule_preserves
  loss_function_rule_preserves data_augmentation_rule_preserves which_model_rule_preserves
  q_verbose_rule_preserves parallel_compute_command_rule_preserves
  same_preserves [OF version_rule_same] same_preserves [OF class_list_rule_same]
  same_preserves [OF dimension_rule_same] same_preserves [OF model_rule_same]
  same_preserves [OF kcross_validation_rule_same] same_preserves [OF nested_training_rule_same]
  same_preserves [OF data_preprocessing_rule_same]

lemmas default_rules =
  batch_size_rule_def amp_rule_def learning_rate_rule_def opt_rule_def base_filters_rule_def
  scheduler_rule_def q_max_length_rule_def q_samples_per_volume_rule_def q_num_workers_rule_def

lemma checks_preserves: "n \<noteq> ''psize'' \<Longrightarrow> list_all (preserves n) (checks P ev)"
  by (simp add: checks_def rule_preserves)

lemma rates_preserves:
  "n \<notin> {''num_epochs'', ''patience'', ''batch_size'', ''amp'', ''learning_rate''} \<Longrightarrow>
     list_all (preserves n) (rates P)"
  by (simp add: rates_def rule_preserves default_rules)

lemma middle_preserves:
  "n \<notin> {''base_filters'', ''which_model'', ''scheduler'', ''q_max_length'',
          ''q_samples_per_volume'', ''q_num_workers''} \<Longrightarrow> list_all (preserves n) (middle P)"
  by (simp add: middle_def rule_preserves default_rules)

lemma rules_cut:
  "rules P ev = checks P ev @ resize_rule P # rates P @ loss_function_rule # opt_rule P #
     data_augmentation_rule # middle P @ [q_verbose_rule, parallel_compute_command_rule]"
  by (simp add: rules_def checks_def rates_def middle_def)

lemma checks_settled:
  "settled [({''version''}, version_rule P ev), ({''class_list''}, class_list_rule),
            ({''dimension''}, dimension_rule P), ({''patch_size'', ''psize''}, patch_size_rule)]"
  by (simp add: again_version_rule again_class_list_rule again_dimension_rule
        again_patch_size_rule rule_preserves)

lemma rates_settled:
  "settled [({''num_epochs'', ''patience''}, epochs_rule P), ({''batch_size''}, batch_size_rule P),
            ({''amp''}, amp_rule P), ({''learning_rate''}, learning_rate_rule P)]"
  by (simp add: again_epochs_rule again_defaults) (simp add: rule_preserves default_rules)

lemma middle_settled:
  "settled [({''data_preprocessing''}, data_preprocessing_rule P),
            ({''base_filters''}, base_filters_rule P),
            ({''modelName'', ''which_model''}, which_model_rule P),
            ({''model''}, model_rule P),
            ({''kcross_validation''}, kcross_validation_rule),
            ({''nested_training''}, nested_training_rule P),
            ({''scheduler''}, scheduler_rule P),
            ({''q_max_length''}, q_max_length_rule P),
            ({''q_samples_per_volume''}, q_samples_per_volume_rule P),
            ({''q_num_workers''}, q_num_workers_rule P)]"
  by (simp add: again_data_preprocessing_rule again_which_model_rule again_model_rule
        again_kcross_validation_rule again_nested_training_rule again_defaults)
     (simp add: rule_preserves default_rules)


lemma agree_subset: "agree R d' d \<Longrightarrow> R' \<subseteq> R \<Longrightarrow> agree R' d' d"
  by (auto simp: agree_def)

lemma checks_again:
  assumes "run (checks P ev) s = Ok s1"
    and "agree {''version'', ''class_list'', ''dimension'', ''patch_size'', ''psize''} d' (fst s1)"
  shows "run (checks P ev) (d', k') = Ok (d', k')"
proof -
  let ?rs = "[({''version''}, version_rule P ev), ({''class_list''}, class_list_rule),
            ({''dimension''}, dimension_rule P), ({''patch_size'', ''psize''}, patch_size_rule)]"
  have l: "checks P ev = map snd ?rs" by (simp add: checks_def)
  have "\<forall>p \<in> set ?rs. agree (fst p) d' (fst s1)"
    using assms(2) by (auto elim: agree_subset)
  from run_settled [OF checks_settled assms(1) [unfolded l] this] show ?thesis
    unfolding l .
qed

lemma rates_again:
  assumes "run (rates P) s = Ok s1"
    and "agree {''num_epochs'', ''patience'', ''batch_size'', ''amp'', ''learning_rate''} d' (fst s1)"
  shows "run (rates P) (d', k') = Ok (d', k')"
proof -
  let ?rs = "[({''num_epochs'', ''patience''}, epochs_rule P), ({''batch_size''}, batch_size_rule P),
            ({''amp''}, amp_rule P), ({''learning_rate''}, learning_rate_rule P)]"
  have l: "rates P = map snd ?rs" by (simp add: rates_def)
  have "\<forall>p \<in> set ?rs. agree (fst p) d' (fst s1)"
    using assms(2) by (auto elim: agree_subset)
  from run_settled [OF rates_settled assms(1) [unfolded l] this] show ?thesis
    unfolding l .
qed

lemma middle_again:
  assumes "run (middle P) s = Ok s1"
    and "agree {''data_preprocessing'', ''base_filters'', ''modelName'', ''which_model'', ''model'',
                ''kcross_validation'', ''nested_training'', ''scheduler'', ''q_max_length'',
                ''q_samples_per_volume'', ''q_num_workers''} d' (fst s1)"
  shows "run (middle P) (d', k') = Ok (d', k')"
proof -
  let ?rs = "[({''data_preprocessing''}, data_preprocessing_rule P),
            ({''base_filters''}, base_filters_rule P),
            ({''modelName'', ''which_model''}, which_model_rule P),
            ({''model''}, model_rule P),
            ({''kcross_validation''}, kcross_validation_rule),
            ({''nested_training''}, nested_training_rule P),
            ({''scheduler''}, scheduler_rule P),
            ({''q_max_length''}, q_max_length_rule P),
            ({''q_samples_per_volume''}, q_samples_per_volume_rule P),
            ({''q_num_workers''}, q_num_workers_rule P)]"
  have l: "middle P = map snd ?rs" by (simp add: middle_def)
  have "\<forall>p \<in> set ?rs. agree (fst p) d' (fst s1)"
    using assms(2) by (auto elim: agree_subset)
  from run_settled [OF middle_settled assms(1) [unfolded l] this] show ?thesis
    unfolding l .
qed

lemma preservesD: "preserves n rule \<Longrightarrow> rule s = Ok s' \<Longrightarrow> map_of (fst s') n = map_of (fst s) n"
  unfolding preserves_def by blast

lemma keeps_keyD: "keeps_key rule \<Longrightarrow> rule s = Ok s' \<Longrightarrow> snd s' = snd s"
  unfolding keeps_key_def by blast

text \<open>
  Claim C7, as the source has it. Let \<open>parseConfig\<close> return \<open>out\<close> for a document that
  gives \<open>resize\<close> itself, does not give \<open>q_verbose\<close> as the string \<open>True\<close>, and either has
  an empty \<open>data_augmentation\<close> or gives \<open>loss_function\<close> as a mapping whose only key is
  \<open>mse\<close>. Then \<open>parseConfig\<close>, run on \<open>out\<close> with the same engine version, returns \<open>out\<close>.
\<close>

theorem normalization_idempotent:
  assumes ok: "parseConfig P ev d = Ok out"
    and resize: "has_key d ''resize''"
    and verbose: "map_of d ''q_verbose'' \<noteq> Some (YStr ''True'')"
    and aug: "(\<exists>v. map_of d ''data_augmentation'' = Some v \<and> py_len v = Ok 0) \<or>
              (\<exists>m. map_of d ''loss_function'' = Some (YDict m) \<and> m \<noteq> [] \<and>
                   (\<forall>p \<in> set m. fst p = ''mse''))"
  shows "parseConfig P ev out = Ok out"
proof -
  from ok obtain kf where "run (rules P ev) (d, None) = Ok (out, kf)"
    by (auto simp: parseConfig_Ok)
  then obtain a b c e f g h i where
    a: "run (checks P ev) (d, None) = Ok a" and b: "resize_rule P a = Ok b"
    and c: "run (rates P) b = Ok c" and e: "loss_function_rule c = Ok e"
    and f: "opt_rule P e = Ok f" and g: "data_augmentation_rule f = Ok g"
    and h: "run (middle P) g = Ok h" and i: "q_verbose_rule h = Ok i"
    and o: "parallel_compute_command_rule i = Ok (out, kf)"
    unfolding rules_cut by (auto simp: run_append then_do_Ok)
  text \<open>What each stretch of the first run leaves alone.\<close>
  have sa: "map_of (fst a) n = map_of d n" if "n \<noteq> ''psize''" for n
    using preservesD [OF run_preserves [OF checks_preserves [OF that]] a] by simp
  have sb: "map_of (fst b) n = map_of (fst a) n" if "n \<noteq> ''resize''" for n
    using preservesD [OF resize_rule_preserves [OF that] b] .
  have sc: "map_of (fst c) n = map_of (fst b) n"
    if "n \<notin> {''num_epochs'', ''patience'', ''batch_size'', ''amp'', ''learning_rate''}" for n
    using preservesD [OF run_preserves [OF rates_preserves [OF that]] c] .
  have se: "map_of (fst e) n = map_of (fst c) n" if "n \<noteq> ''loss_function''" for n
    using preservesD [OF loss_function_rule_preserves [OF that] e] .
  have sf: "map_of (fst f) n = map_of (fst e) n" if "n \<noteq> ''opt''" for n
    using preservesD [OF default_rule_preserves [OF that] f [unfolded opt_rule_def]] .
  have sg: "map_of (fst g) n = map_of (fst f) n" if "n \<noteq> ''data_augmentation''" for n
    using preservesD [OF data_augmentation_rule_preserves [OF that] g] .
  have sh: "map_of (fst h) n = map_of (fst g) n"
    if "n \<notin> {''base_filters'', ''which_model'', ''scheduler'', ''q_max_length'',
          ''q_samples_per_volume'', ''q_num_workers''}" for n
    using preservesD [OF run_preserves [OF middle_preserves [OF that]] h] .
  have si: "map_of (fst i) n = map_of (fst h) n" if "n \<noteq> ''q_verbose''" for n
    using preservesD [OF q_verbose_rule_preserves [OF that] i] .
  have so: "map_of out n = map_of (fst i) n" if "n \<noteq> ''parallel_compute_command''" for n
    using preservesD [OF parallel_compute_command_rule_preserves [OF that] o] by simp
  text \<open>The loop variable in the first run.\<close>
  have kf: "snd f = snd e"
    using keeps_keyD [OF default_rule_keeps_key f [unfolded opt_rule_def]] .
  text \<open>The second run, rule by rule.\<close>
  have "agree {''version'', ''class_list'', ''dimension'', ''patch_size'', ''psize''} out (fst a)"
    by (simp add: agree_def so si sh sg sf se sc sb)
  from checks_again [OF a this] have 1: "run (checks P ev) (out, None) = Ok (out, None)" .
  have "has_key (fst a) ''resize''" using resize by (simp add: has_key_def sa)
  moreover have "agree {''resize'', ''psize''} out (fst b)"
    by (simp add: agree_def so si sh sg sf se sc)
  ultimately have 2: "resize_rule P (out, None) = Ok (out, None)"
    using b by (rule resize_rule_again [rotated])
  have "agree {''num_epochs'', ''patience'', ''batch_size'', ''amp'', ''learning_rate''} out (fst c)"
    by (simp add: agree_def so si sh sg sf se)
  from rates_again [OF c this] have 3: "run (rates P) (out, None) = Ok (out, None)" .
  from loss_function_rule_settles [OF e] obtain L where L: "map_of (fst e) ''loss_function'' = Some L"
    and settled: "settled_loss L" by blast
  from L have outL: "map_of out ''loss_function'' = Some L" by (simp add: so si sh sg sf)
  define k2 :: "'a yaml option" where "k2 = (if is_dict L then Some (YStr ''mse'') else None)"
  from loss_function_rule_again [OF outL settled, of None]
  have 4: "loss_function_rule (out, None) = Ok (out, k2)" by (simp add: k2_def)
  have "agree {''opt''} out (fst f)" by (simp add: agree_def so si sh sg)
  with again_defaults(4) f have 5: "opt_rule P (out, k2) = Ok (out, k2)"
    unfolding again_def by blast
  have "agree {''data_augmentation''} out (fst g)" by (simp add: agree_def so si sh)
  moreover have "k2 = snd f \<or> (\<exists>v. map_of out ''data_augmentation'' = Some v \<and> py_len v = Ok 0)"
    using aug
  proof
    assume "\<exists>v. map_of d ''data_augmentation'' = Some v \<and> py_len v = Ok 0"
    then obtain v where v: "map_of (fst f) ''data_augmentation'' = Some v" and len: "py_len v = Ok 0"
      by (auto simp: sf se sc sb sa)
    with g have "g = f" by (simp add: data_augmentation_rule_def lookup_def)
    with v have "map_of out ''data_augmentation'' = Some v" by (simp add: so si sh)
    with len show ?thesis by blast
  next
    assume "\<exists>m. map_of d ''loss_function'' = Some (YDict m) \<and> m \<noteq> [] \<and>
                   (\<forall>p \<in> set m. fst p = ''mse'')"
    then obtain m where "map_of (fst c) ''loss_function'' = Some (YDict m)" and "m \<noteq> []"
      and "\<forall>p \<in> set m. fst p = ''mse''" by (auto simp: sc sb sa)
    from loss_function_rule_key [OF e this] L have "snd e = Some (YStr ''mse'')" and "is_dict L"
      by auto
    then show ?thesis by (simp add: k2_def kf)
  qed
  ultimately have 6: "data_augmentation_rule (out, k2) = Ok (out, k2)"
    using g by (rule data_augmentation_rule_again [rotated])
  have "agree {''data_preprocessing'', ''base_filters'', ''modelName'', ''which_model'', ''model'',
                ''kcross_validation'', ''nested_training'', ''scheduler'', ''q_max_length'',
                ''q_samples_per_volume'', ''q_num_workers''} out (fst h)"
    by (simp add: agree_def so si)
  from middle_again [OF h this] have 7: "run (middle P) (out, k2) = Ok (out, k2)" .
  have "map_of (fst h) ''q_verbose'' \<noteq> Some (YStr ''True'')"
    using verbose by (simp add: sh sg sf se sc sb sa)
  moreover have "agree {''q_verbose''} out (fst i)" by (simp add: agree_def so)
  ultimately have 8: "q_verbose_rule (out, k2) = Ok (out, k2)"
    using i by (rule q_verbose_rule_again [rotated])
  have "agree {''parallel_compute_command''} out (fst (out, kf))" by (simp add: agree_def)
  with again_parallel_compute_command_rule o
  have 9: "parallel_compute_command_rule (out, k2) = Ok (out, k2)"
    unfolding again_def by blast
  from 1 2 3 4 5 6 7 8 9 have "run (rules P ev) (out, None) = Ok (out, k2)"
    unfolding rules_cut by (simp add: run_append)
  then show ?thesis by (auto simp: parseConfig_Ok)
qed

lemma resized_run: "parseConfig ideal ''0.0.8'' resized = Ok resized_normalized"
  by code_simp

theorem normalization_idempotent_witness:
  "parseConfig ideal ''0.0.8'' resized_normalized = Ok resized_normalized"
proof -
  have r: "has_key resized ''resize''" by (simp add: has_key_def resized_def)
  have v: "map_of resized ''q_verbose'' \<noteq> Some (YStr ''True'')"
    by (simp add: resized_def minimal_def)
  have "map_of resized ''data_augmentation'' = Some (YDict []) \<and> py_len (YDict [] :: rat yaml) = Ok 0"
    by (simp add: resized_def minimal_def)
  then have a: "(\<exists>v. map_of resized ''data_augmentation'' = Some v \<and> py_len v = Ok 0) \<or>
              (\<exists>m. map_of resized ''loss_function'' = Some (YDict m) \<and> m \<noteq> [] \<and>
                   (\<forall>p \<in> set m. fst p = ''mse''))" by blast
  from normalization_idempotent [OF resized_run r v a] show ?thesis .
qed

text \<open>
  Claim C7 as stated takes any configuration the function returns. The configuration
  returned for the sample document has the defaulted \<open>resize\<close> of null, and on it the
  comparison of \<open>resize\<close> with the patch size raises \<open>TypeError\<close>.
\<close>

theorem defaulted_resize_rejected:
  "parseConfig ideal ''0.0.8'' minimal = Ok minimal_normalized \<and>
   parseConfig ideal ''0.0.8'' minimal_normalized = Raise TypeError"
  by code_simp

text \<open>
  The other two conditions are needed as well. A \<open>q_verbose\<close> given as the string \<open>True\<close>
  is returned as the boolean, which a second run turns into false. A loss-function
  mapping with another key than \<open>mse\<close> is returned as a tag, so a second run has no loop to
  bind \<open>key\<close> and a non-empty \<open>data_augmentation\<close> ends it.
\<close>

lemma verbose_flag_flips:
  "returned ''q_verbose''
     (parseConfig ideal ''0.0.8'' (AList.update ''q_verbose'' (YStr ''True'') resized))
     = Ok (Some (YBool True))"
  "returned ''q_verbose''
     (then_do (parseConfig ideal ''0.0.8'' (AList.update ''q_verbose'' (YStr ''True'') resized))
        (parseConfig ideal ''0.0.8''))
     = Ok (Some (YBool False))"
  by code_simp+

lemma loop_variable_lost:
  "succeeds (parseConfig ideal ''0.0.8''
      (AList.update ''loss_function'' (YDict [(''flip'', YNone)])
        (AList.update ''data_augmentation'' (YDict [(''flip'', YNone)]) resized)))"
  "then_do (parseConfig ideal ''0.0.8''
      (AList.update ''loss_function'' (YDict [(''flip'', YNone)])
        (AList.update ''data_augmentation'' (YDict [(''flip'', YNone)]) resized)))
     (parseConfig ideal ''0.0.8'')
     = Raise UnboundLocalError"
  by code_simp+

section \<open>What the function never writes\<close>

text \<open>
  No rule stores anything under the keys the function only tests: a configuration that is
  returned has them as the document gave them. In particular \<open>nested_training\<close> and
  \<open>data_preprocessing\<close> are returned unchanged, whatever they hold.
\<close>

lemma rules_preserve:
  assumes "n \<notin> {''psize'', ''resize'', ''num_epochs'', ''patience'', ''batch_size'', ''amp'',
            ''learning_rate'', ''loss_function'', ''opt'', ''data_augmentation'', ''base_filters'',
            ''which_model'', ''scheduler'', ''q_max_length'', ''q_samples_per_volume'',
            ''q_num_workers'', ''q_verbose'', ''parallel_compute_command''}"
  shows "list_all (preserves n) (rules P ev)"
  using assms unfolding rules_cut
  by (simp add: checks_preserves rates_preserves middle_preserves rule_preserves default_rules)

lemma returned_as_given:
  assumes "parseConfig P ev d = Ok out"
    and "n \<in> {''version'', ''class_list'', ''dimension'', ''patch_size'', ''data_preprocessing'',
               ''model'', ''nested_training''}"
  shows "map_of out n = map_of d n"
proof -
  from assms(1) obtain k where run: "run (rules P ev) (d, None) = Ok (out, k)"
    by (auto simp: parseConfig_Ok)
  from assms(2) have "list_all (preserves n) (rules P ev)"
    by (intro rules_preserve) auto
  from preservesD [OF run_preserves [OF this] run] show ?thesis by simp
qed

end
